theory Spec2Isabelle
  imports Main "HOL-Library.Word"
begin

unbundle bit_operations_syntax

section \<open>Paths and exceptions\<close>

text \<open>
  A \<open>pathlib\<close> path is its anchor and the components after it. \<open>PurePosixPath\<close> keeps
  exactly two leading slashes as a root of their own, drops empty and \<open>.\<close> components and
  keeps \<open>..\<close> components.
\<close>

datatype anchor = Relative | Root | DoubleRoot

datatype ppath = PPath (anchor: anchor) (parts: "string list")

datatype errno = ENOENT | ENOTDIR | EEXIST | EISDIR | EINVAL

text \<open>
  The exceptions the two source files can raise, by Python class. \<open>PyException\<close> is a bare
  \<open>raise Exception(msg)\<close>; \<open>ValueError_relative_to child parent\<close> is the \<open>ValueError\<close>
  of \<open>PurePath.relative_to\<close>, whose message is built from the two paths;
  \<open>GpgError\<close> stands for whatever the signature library raises.
\<close>

datatype exn =
    PyException string
  | ValueError_relative_to ppath ppath
  | ValueError_max_empty
  | IndexError
  | KeyError string
  | AttributeError
  | CsvError
  | OSError errno
  | GpgError string

section \<open>Release catalogue (getLatestVersionAndURLWithGitHubAPI.py)\<close>

text \<open>
  Timestamps are the instants \<open>parseDT\<close> returns, as integers. A compiled regular
  expression is the truth value of its \<open>match\<close>; the tag pattern returns group 1 of
  its match.
\<close>

type_synonym datetime = int
type_synonym regex = "string \<Rightarrow> bool"
type_synonym role = "string option"

record DownloadTargetFile =
  f_role :: role
  f_created :: datetime
  f_modified :: datetime
  f_uri :: string

record DownloadTarget =
  t_name :: string
  t_version :: string
  t_prerelease :: bool
  t_created :: datetime
  t_published :: datetime
  t_files :: "(role \<times> DownloadTargetFile) list"

text \<open>Python compares tuples at the first position where they differ.\<close>

definition tuple_lt :: "datetime \<times> datetime \<Rightarrow> datetime \<times> datetime \<Rightarrow> bool" where
  "tuple_lt a b =
     (if fst a \<noteq> fst b then fst a < fst b
      else if snd a \<noteq> snd b then snd a < snd b
      else False)"

definition tuple_gt :: "datetime \<times> datetime \<Rightarrow> datetime \<times> datetime \<Rightarrow> bool" where
  "tuple_gt a b =
     (if fst a \<noteq> fst b then fst a > fst b
      else if snd a \<noteq> snd b then snd a > snd b
      else False)"

definition cmpTuple :: "DownloadTarget \<Rightarrow> datetime \<times> datetime" where
  "cmpTuple t = (t_created t, t_published t)"

definition target_lt :: "DownloadTarget \<Rightarrow> DownloadTarget \<Rightarrow> bool" where
  "target_lt self other = tuple_lt (cmpTuple self) (cmpTuple other)"

definition target_gt :: "DownloadTarget \<Rightarrow> DownloadTarget \<Rightarrow> bool" where
  "target_gt self other = tuple_gt (cmpTuple self) (cmpTuple other)"

definition target_eq :: "DownloadTarget \<Rightarrow> DownloadTarget \<Rightarrow> bool" where
  "target_eq self other = (cmpTuple self = cmpTuple other)"

text \<open>
  The builtin \<open>max\<close>, as \<open>doBuild\<close> calls it on the list of targets: the first item is
  the candidate, a later item replaces it when \<open>item > candidate\<close>, and an empty list
  raises \<open>ValueError\<close>.
\<close>

fun max_loop :: "DownloadTarget \<Rightarrow> DownloadTarget list \<Rightarrow> DownloadTarget" where
  "max_loop m [] = m"
| "max_loop m (x # xs) = max_loop (if target_gt x m then x else m) xs"

definition py_max :: "DownloadTarget list \<Rightarrow> exn + DownloadTarget" where
  "py_max tgts = (case tgts of [] \<Rightarrow> Inl ValueError_max_empty | x # xs \<Rightarrow> Inr (max_loop x xs))"

record asset =
  a_name :: string
  a_created_at :: datetime
  a_updated_at :: datetime
  a_browser_download_url :: string

record release =
  r_name :: string
  r_tag_name :: string
  r_prerelease :: bool
  r_created_at :: datetime
  r_published_at :: datetime
  r_assets :: "asset list"

text \<open>The decoded response: a list of releases, or a dictionary with a \<open>message\<close>.\<close>

datatype response = Releases "release list" | Message string

text \<open>\<open>downloadFileNamesRxs\<close> is a dictionary from roles to patterns or one bare pattern.\<close>

datatype file_rxs = RxDict "(role \<times> regex) list" | RxSingle regex

text \<open>\<open>d[k] = v\<close> on a dictionary kept in insertion order.\<close>

fun dict_set :: "'k \<Rightarrow> 'v \<Rightarrow> ('k \<times> 'v) list \<Rightarrow> ('k \<times> 'v) list" where
  "dict_set k v [] = [(k, v)]"
| "dict_set k v (p # ps) = (if fst p = k then (k, v) # ps else p # dict_set k v ps)"

text \<open>The \<open>DownloadTargetFile(role, fc, m, a["browser_download_url"])\<close> of an asset.\<close>

definition mk_file :: "role \<Rightarrow> asset \<Rightarrow> DownloadTargetFile" where
  "mk_file role a =
     \<lparr>f_role = role, f_created = a_created_at a, f_modified = a_updated_at a,
      f_uri = a_browser_download_url a\<rparr>"

text \<open>The inner loop over the roles, for one asset.\<close>

fun roles_loop ::
  "asset \<Rightarrow> (role \<times> regex) list \<Rightarrow> (role \<times> DownloadTargetFile) list
     \<Rightarrow> (role \<times> DownloadTargetFile) list" where
  "roles_loop a [] files = files"
| "roles_loop a ((role, downloadFileNameRx) # rxs) files =
     (if \<not> downloadFileNameRx (a_name a) then roles_loop a rxs files
      else roles_loop a rxs (dict_set role (mk_file role a) files))"

text \<open>The loop over the assets of one release.\<close>

fun assets_loop ::
  "asset list \<Rightarrow> (role \<times> regex) list \<Rightarrow> (role \<times> DownloadTargetFile) list
     \<Rightarrow> (role \<times> DownloadTargetFile) list" where
  "assets_loop [] rxs files = files"
| "assets_loop (a # as) rxs files = assets_loop as rxs (roles_loop a rxs files)"

text \<open>
  The body of the loop over the releases: \<open>None\<close> where the source continues without
  yielding.
\<close>

definition release_target ::
  "regex option \<Rightarrow> (string \<Rightarrow> string option) \<Rightarrow> (role \<times> regex) list \<Rightarrow> release
     \<Rightarrow> DownloadTarget option" where
  "release_target titleRx tagRx downloadFileNamesRxs r =
     (if titleRx \<noteq> None \<and> \<not> (the titleRx) (r_name r) then None
      else case tagRx (r_tag_name r) of
        None \<Rightarrow> None
      | Some v \<Rightarrow>
          (let files = assets_loop (r_assets r) downloadFileNamesRxs []
           in if length files = length downloadFileNamesRxs
              then Some \<lparr>t_name = r_name r, t_version = v, t_prerelease = r_prerelease r,
                         t_created = r_created_at r, t_published = r_published_at r,
                         t_files = files\<rparr>
              else None))"

fun releases_loop ::
  "regex option \<Rightarrow> (string \<Rightarrow> string option) \<Rightarrow> (role \<times> regex) list \<Rightarrow> release list
     \<Rightarrow> DownloadTarget list" where
  "releases_loop titleRx tagRx rxs [] = []"
| "releases_loop titleRx tagRx rxs (r # rs) =
     (case release_target titleRx tagRx rxs r of
        None \<Rightarrow> releases_loop titleRx tagRx rxs rs
      | Some t \<Rightarrow> t # releases_loop titleRx tagRx rxs rs)"

text \<open>
  \<open>getTargets\<close>, read to its end as \<open>list(getTargets(...))\<close> does. The request and the
  rate-limit report before the loop are not modelled; \<open>t\<close> is the decoded response.
\<close>

definition getTargets ::
  "regex option \<Rightarrow> (string \<Rightarrow> string option) \<Rightarrow> file_rxs \<Rightarrow> response
     \<Rightarrow> exn + DownloadTarget list" where
  "getTargets titleRx tagRx downloadFileNamesRxs t =
     (let rxs = (case downloadFileNamesRxs of RxDict d \<Rightarrow> d | RxSingle rx \<Rightarrow> [(None, rx)])
      in case t of
           Message m \<Rightarrow> Inl (PyException m)
         | Releases rs \<Rightarrow> Inr (releases_loop titleRx tagRx rxs rs))"

section \<open>Strings\<close>

text \<open>
  Hash digests and key fingerprints are ASCII text; \<open>str.lower\<close> and \<open>str.upper\<close> are
  modelled on ASCII letters and leave every other character as it is.
\<close>

definition lower_char :: "char \<Rightarrow> char" where
  "lower_char c =
     (let n = (of_char c :: nat) in if 65 \<le> n \<and> n \<le> 90 then char_of (n + 32) else c)"

definition upper_char :: "char \<Rightarrow> char" where
  "upper_char c =
     (let n = (of_char c :: nat) in if 97 \<le> n \<and> n \<le> 122 then char_of (n - 32) else c)"

definition str_lower :: "string \<Rightarrow> string" where
  "str_lower s = map lower_char s"

definition str_upper :: "string \<Rightarrow> string" where
  "str_upper s = map upper_char s"

text \<open>\<open>sep.join(xs)\<close>.\<close>

fun join :: "string \<Rightarrow> string list \<Rightarrow> string" where
  "join sep [] = []"
| "join sep [x] = x"
| "join sep (x # y # ys) = x @ sep @ join sep (y # ys)"

text \<open>\<open>xs[i]\<close> for a non-negative index.\<close>

definition py_index :: "'a list \<Rightarrow> nat \<Rightarrow> exn + 'a" where
  "py_index xs i = (if i < length xs then Inr (xs ! i) else Inl IndexError)"

section \<open>The hash manifest (BuildDeb.py, parseHashesFile)\<close>

text \<open>
  \<open>csv.reader\<close> under \<open>HashesFilesDialect\<close>: the delimiter is a space, quoting is
  \<open>QUOTE_NONE\<close>, there is no escape character, and \<open>skipinitialspace\<close> and \<open>strict\<close>
  are off. The reader is the state machine of the \<open>_csv\<close> module, restricted to the four
  states it can reach under this dialect; \<open>None\<close> is the end-of-line marker the reader feeds
  after the characters of a line, and a field may hold at most \<open>field_limit\<close> characters.
\<close>

datatype parser_state = START_RECORD | START_FIELD | IN_FIELD | EAT_CRNL

record reader =
  rd_state :: parser_state
  rd_fields :: "string list"
  rd_field :: string

definition delimiter :: char where
  "delimiter = CHR '' ''"

definition field_limit :: nat where
  "field_limit = 131072"

definition is_nl :: "char \<Rightarrow> bool" where
  "is_nl c = (c = CHR 0x0A \<or> c = CHR 0x0D)"

definition parse_add_char :: "reader \<Rightarrow> char \<Rightarrow> exn + reader" where
  "parse_add_char self c =
     (if length (rd_field self) \<ge> field_limit then Inl CsvError
      else Inr (self\<lparr>rd_field := rd_field self @ [c]\<rparr>))"

definition parse_save_field :: "reader \<Rightarrow> reader" where
  "parse_save_field self = self\<lparr>rd_fields := rd_fields self @ [rd_field self], rd_field := []\<rparr>"

definition start_field :: "reader \<Rightarrow> char option \<Rightarrow> exn + reader" where
  "start_field self c =
     (case c of
        None \<Rightarrow> Inr ((parse_save_field self)\<lparr>rd_state := START_RECORD\<rparr>)
      | Some ch \<Rightarrow>
          if is_nl ch then Inr ((parse_save_field self)\<lparr>rd_state := EAT_CRNL\<rparr>)
          else if ch = delimiter then Inr (parse_save_field self)
          else (case parse_add_char self ch of
                  Inl e \<Rightarrow> Inl e
                | Inr self' \<Rightarrow> Inr (self'\<lparr>rd_state := IN_FIELD\<rparr>)))"

definition parse_process_char :: "reader \<Rightarrow> char option \<Rightarrow> exn + reader" where
  "parse_process_char self c =
     (case rd_state self of
        START_RECORD \<Rightarrow>
          (case c of
             None \<Rightarrow> Inr self
           | Some ch \<Rightarrow>
               if is_nl ch then Inr (self\<lparr>rd_state := EAT_CRNL\<rparr>)
               else start_field (self\<lparr>rd_state := START_FIELD\<rparr>) c)
      | START_FIELD \<Rightarrow> start_field self c
      | IN_FIELD \<Rightarrow>
          (case c of
             None \<Rightarrow> Inr ((parse_save_field self)\<lparr>rd_state := START_RECORD\<rparr>)
           | Some ch \<Rightarrow>
               if is_nl ch then Inr ((parse_save_field self)\<lparr>rd_state := EAT_CRNL\<rparr>)
               else if ch = delimiter
                 then Inr ((parse_save_field self)\<lparr>rd_state := START_FIELD\<rparr>)
               else parse_add_char self ch)
      | EAT_CRNL \<Rightarrow>
          (case c of
             None \<Rightarrow> Inr (self\<lparr>rd_state := START_RECORD\<rparr>)
           | Some ch \<Rightarrow> if is_nl ch then Inr self else Inl CsvError))"

fun process_chars :: "reader \<Rightarrow> string \<Rightarrow> exn + reader" where
  "process_chars self [] = Inr self"
| "process_chars self (c # cs) =
     (case parse_process_char self (Some c) of
        Inl e \<Rightarrow> Inl e
      | Inr self' \<Rightarrow> process_chars self' cs)"

text \<open>
  One call of the reader's \<open>__next__\<close> on one line of input. The reader takes a further
  line only while its state is not \<open>START_RECORD\<close> after the end-of-line marker, which the
  four states above never leave it in.
\<close>

definition reader_next :: "string \<Rightarrow> exn + string list" where
  "reader_next line =
     (case process_chars \<lparr>rd_state = START_RECORD, rd_fields = [], rd_field = []\<rparr> line of
        Inl e \<Rightarrow> Inl e
      | Inr self \<Rightarrow>
          (case parse_process_char self None of
             Inl e \<Rightarrow> Inl e
           | Inr self' \<Rightarrow> Inr (rd_fields self')))"

text \<open>The lines \<open>StringIO(hashes)\<close> iterates over: cut after every line feed.\<close>

fun readlines_from :: "string \<Rightarrow> string \<Rightarrow> string list" where
  "readlines_from cur [] = (if cur = [] then [] else [cur])"
| "readlines_from cur (c # cs) =
     (if c = CHR 0x0A then (cur @ [c]) # readlines_from [] cs
      else readlines_from (cur @ [c]) cs)"

definition readlines :: "string \<Rightarrow> string list" where
  "readlines text = readlines_from [] text"

text \<open>The loop of \<open>parseHashesFile\<close>: \<open>res[line[2]] = line[0]\<close> for every record.\<close>

fun rows_loop :: "(string \<rightharpoonup> string) \<Rightarrow> string list \<Rightarrow> exn + (string \<rightharpoonup> string)" where
  "rows_loop res [] = Inr res"
| "rows_loop res (l # ls) =
     (case reader_next l of
        Inl e \<Rightarrow> Inl e
      | Inr line \<Rightarrow>
          (case py_index line 0 of
             Inl e \<Rightarrow> Inl e
           | Inr v \<Rightarrow>
               (case py_index line 2 of
                  Inl e \<Rightarrow> Inl e
                | Inr k \<Rightarrow> rows_loop (res(k \<mapsto> v)) ls)))"

definition parseHashesFile :: "string \<Rightarrow> exn + (string \<rightharpoonup> string)" where
  "parseHashesFile hashes = rows_loop Map.empty (readlines hashes)"

text \<open>
  The manifest format of the specification, for a list of (filename, hash) pairs: one line
  \<open>hash label filename\<close> per pair, space-delimited and ended by a line feed. A field of
  that format has no space, no line break, and fits the reader's field limit.
\<close>

definition wf_field :: "string \<Rightarrow> bool" where
  "wf_field x = ((\<forall>c \<in> set x. c \<noteq> delimiter \<and> \<not> is_nl c) \<and> length x \<le> field_limit)"

definition manifest_line :: "string \<Rightarrow> string \<times> string \<Rightarrow> string" where
  "manifest_line label fh = snd fh @ delimiter # label @ delimiter # fst fh @ [CHR 0x0A]"

definition manifest_text :: "string \<Rightarrow> (string \<times> string) list \<Rightarrow> string" where
  "manifest_text label m = concat (map (manifest_line label) m)"

section \<open>Signature verification (BuildDeb.py, verifyBlob)\<close>

text \<open>
  A key of the keyring is its fingerprint and the fingerprints of its subkeys. The
  signature library is a parameter \<open>gpg_verify\<close>: it raises, or returns the fingerprints
  of \<open>res.signatures\<close> in their order.
\<close>

record key =
  k_fpr :: string
  k_subkeys :: "string list"

type_synonym verifier = "string \<Rightarrow> string \<Rightarrow> exn + string list"

fun findKeyByFingerprint :: "key list \<Rightarrow> string \<Rightarrow> key option" where
  "findKeyByFingerprint [] fp = None"
| "findKeyByFingerprint (k # ks) fp = (if k_fpr k = fp then Some k else findKeyByFingerprint ks fp)"

text \<open>Python's truth value of an optional string argument.\<close>

definition truthy :: "string option \<Rightarrow> bool" where
  "truthy a = (case a of None \<Rightarrow> False | Some s \<Rightarrow> s \<noteq> [])"

text \<open>
  The set the first lines of \<open>verifyBlob\<close> build; \<open>key.subkeys\<close> raises
  \<open>AttributeError\<close> when no key of the keyring has the fingerprint.
\<close>

definition allowedFingerprints :: "key list \<Rightarrow> string option \<Rightarrow> string option \<Rightarrow> exn + string set" where
  "allowedFingerprints keyring keyFingerprint subkeyFingerprint =
     (if truthy keyFingerprint then
        (case findKeyByFingerprint keyring (str_upper (the keyFingerprint)) of
           None \<Rightarrow> Inl AttributeError
         | Some key \<Rightarrow> Inr (set (k_subkeys key)))
      else if truthy subkeyFingerprint then Inr {str_upper (the subkeyFingerprint)}
      else Inr {})"

fun signatures_loop :: "string set \<Rightarrow> string list \<Rightarrow> bool" where
  "signatures_loop allowed [] = False"
| "signatures_loop allowed (s # ss) = (if s \<in> allowed then True else signatures_loop allowed ss)"

definition verifyBlob ::
  "key list \<Rightarrow> verifier \<Rightarrow> string \<Rightarrow> string \<Rightarrow> string option \<Rightarrow> string option \<Rightarrow> exn + bool" where
  "verifyBlob keyring gpg_verify signedData signature keyFingerprint subkeyFingerprint =
     (case allowedFingerprints keyring keyFingerprint subkeyFingerprint of
        Inl e \<Rightarrow> Inl e
      | Inr allowed \<Rightarrow>
          (case gpg_verify signedData signature of
             Inl e \<Rightarrow> Inl e
           | Inr sigs \<Rightarrow>
               if signatures_loop allowed sigs then Inr True
               else Inl (PyException (''Wrong public keys used: '' @ join '' '' sigs))))"

section \<open>The trust chain of doBuild (BuildDeb.py, lines 275 to 292)\<close>

definition signingKeyFingerprint :: string where
  "signingKeyFingerprint = ''CBA23971357C2E6590D9EFD3EC8FEF3A7BFB4EDA''"

text \<open>
  From the two downloaded blobs to the check of the archive's hash. \<open>hashesRaw\<close> is the
  manifest as text, \<open>archiveFileName\<close> the last component of the binary's URI, and
  \<open>downloaded\<close> what \<open>download\<close> and \<open>sumFile\<close> give: an exception, or the SHA-256 digest
  of the file at \<open>archPath\<close>. The result is the exception that ends \<open>doBuild\<close>, or the
  path that goes on to \<open>unpack\<close>.
\<close>

definition doBuild_verified ::
  "key list \<Rightarrow> verifier \<Rightarrow> string \<Rightarrow> string \<Rightarrow> string \<Rightarrow> exn + string \<Rightarrow> 'p \<Rightarrow> exn + 'p" where
  "doBuild_verified keyring gpg_verify hashesRaw hashesSigRaw archiveFileName downloaded archPath =
     (case verifyBlob keyring gpg_verify hashesRaw hashesSigRaw (Some signingKeyFingerprint) None of
        Inl e \<Rightarrow> Inl e
      | Inr _ \<Rightarrow>
          (case parseHashesFile hashesRaw of
             Inl e \<Rightarrow> Inl e
           | Inr hashes \<Rightarrow>
               (case hashes archiveFileName of
                  None \<Rightarrow> Inl (KeyError archiveFileName)
                | Some h \<Rightarrow>
                    (let archiveEtalonHash = str_lower h
                     in case downloaded of
                          Inl e \<Rightarrow> Inl e
                        | Inr actualFileHash \<Rightarrow>
                            if str_lower actualFileHash \<noteq> archiveEtalonHash
                            then Inl (PyException ''Bad hash for the downloaded archive!'')
                            else Inr archPath))))"

section \<open>Paths (pathlib)\<close>

text \<open>The components of a string between its slashes.\<close>

fun split_from :: "string \<Rightarrow> string \<Rightarrow> string list" where
  "split_from cur [] = [cur]"
| "split_from cur (c # cs) =
     (if c = CHR ''/'' then cur # split_from [] cs else split_from (cur @ [c]) cs)"

text \<open>\<open>PurePosixPath(s)\<close>.\<close>

definition parse_path :: "string \<Rightarrow> ppath" where
  "parse_path s =
     (let n = length (takeWhile (\<lambda>c. c = CHR ''/'') s)
      in PPath (if n = 0 then Relative else if n = 2 then DoubleRoot else Root)
           (filter (\<lambda>p. p \<noteq> [] \<and> p \<noteq> ''.'') (split_from [] s)))"

text \<open>\<open>self / other\<close>: an anchored right operand replaces the left one.\<close>

definition joinpath :: "ppath \<Rightarrow> ppath \<Rightarrow> ppath" where
  "joinpath self other =
     (if anchor other \<noteq> Relative then other
      else PPath (anchor self) (parts self @ parts other))"

definition path_parent :: "ppath \<Rightarrow> ppath" where
  "path_parent p = PPath (anchor p) (butlast (parts p))"

definition path_str :: "ppath \<Rightarrow> string" where
  "path_str p =
     (case anchor p of
        Relative \<Rightarrow> (if parts p = [] then ''.'' else join ''/'' (parts p))
      | Root \<Rightarrow> ''/'' @ join ''/'' (parts p)
      | DoubleRoot \<Rightarrow> ''//'' @ join ''/'' (parts p))"


text \<open>\<open>Path.absolute()\<close>, with the working directory \<open>cwd\<close> as its components.\<close>

definition absolute :: "string list \<Rightarrow> ppath \<Rightarrow> ppath" where
  "absolute cwd p = (if anchor p = Relative then PPath Root (cwd @ parts p) else p)"

text \<open>
  \<open>Path.resolve()\<close>. The file system of this model has no symbolic links, so resolving
  a path makes it absolute and removes its \<open>..\<close> components from left to right, each
  taking the component before it, and none at the root.
\<close>

definition step :: "string list \<Rightarrow> string \<Rightarrow> string list" where
  "step cur c = (if c = ''..'' then butlast cur else cur @ [c])"

definition resolve :: "string list \<Rightarrow> ppath \<Rightarrow> ppath" where
  "resolve cwd p = PPath Root (foldl step [] (parts (absolute cwd p)))"

text \<open>
  \<open>self.relative_to(other)\<close>: the components of \<open>self\<close> after those of \<open>other\<close>, or
  \<open>ValueError\<close> when \<open>other\<close> is not a prefix of \<open>self\<close>.
\<close>

definition relative_to :: "ppath \<Rightarrow> ppath \<Rightarrow> exn + ppath" where
  "relative_to self other =
     (if anchor self = anchor other \<and> take (length (parts other)) (parts self) = parts other
      then Inr (PPath Relative (drop (length (parts other)) (parts self)))
      else Inl (ValueError_relative_to self other))"

text \<open>\<open>self\<close> is \<open>other\<close> or lies below it.\<close>

definition inside :: "ppath \<Rightarrow> ppath \<Rightarrow> bool" where
  "inside other self =
     (anchor self = anchor other \<and> take (length (parts other)) (parts self) = parts other)"

section \<open>Safe extraction (BuildDeb.py, isSubdir and unpack)\<close>

text \<open>The loop of \<open>isSubdir\<close> over \<open>child.parts\<close>.\<close>

fun parts_loop :: "string list \<Rightarrow> bool" where
  "parts_loop [] = True"
| "parts_loop (p # ps) = (if p = ''..'' then False else parts_loop ps)"

definition isSubdir :: "string list \<Rightarrow> ppath \<Rightarrow> ppath \<Rightarrow> exn + bool" where
  "isSubdir cwd parent child =
     (let parent' = resolve cwd (absolute cwd parent)
      in case relative_to (resolve cwd (absolute cwd child)) parent' of
           Inl e \<Rightarrow> Inl e
         | Inr child' \<Rightarrow> Inr (parts_loop (parts child')))"

text \<open>
  The file system: the working directory, the directories and the regular files with their
  bytes, each under its resolved absolute path. The kernel walks a path component by
  component: every component but the last must lead through an existing directory
  (\<open>ENOENT\<close> where nothing is, \<open>ENOTDIR\<close> where a regular file is), also before a
  \<open>..\<close>.
\<close>

record fs =
  fs_cwd :: "string list"
  fs_dirs :: "string list set"
  fs_files :: "string list \<rightharpoonup> 8 word list"

fun walk :: "fs \<Rightarrow> string list \<Rightarrow> string list \<Rightarrow> errno + string list" where
  "walk s cur [] = Inr cur"
| "walk s cur (c # cs) =
     (if cur \<in> fs_dirs s then walk s (step cur c) cs
      else if fs_files s cur \<noteq> None then Inl ENOTDIR
      else Inl ENOENT)"

definition locate :: "fs \<Rightarrow> ppath \<Rightarrow> errno + string list" where
  "locate s p = walk s (if anchor p = Relative then fs_cwd s else []) (parts p)"

definition is_file :: "fs \<Rightarrow> ppath \<Rightarrow> bool" where
  "is_file s p = (case locate s p of Inl e \<Rightarrow> False | Inr q \<Rightarrow> fs_files s q \<noteq> None)"

definition is_dir :: "fs \<Rightarrow> ppath \<Rightarrow> bool" where
  "is_dir s p = (case locate s p of Inl e \<Rightarrow> False | Inr q \<Rightarrow> q \<in> fs_dirs s)"

definition is_symlink :: "fs \<Rightarrow> ppath \<Rightarrow> bool" where
  "is_symlink s p = False"

definition unlink :: "fs \<Rightarrow> ppath \<Rightarrow> exn + fs" where
  "unlink s p =
     (case locate s p of
        Inl e \<Rightarrow> Inl (OSError e)
      | Inr q \<Rightarrow>
          if fs_files s q \<noteq> None then Inr (s\<lparr>fs_files := (fs_files s)(q := None)\<rparr>)
          else if q \<in> fs_dirs s then Inl (OSError EISDIR)
          else Inl (OSError ENOENT))"

definition os_mkdir :: "fs \<Rightarrow> ppath \<Rightarrow> errno + fs" where
  "os_mkdir s p =
     (case locate s p of
        Inl e \<Rightarrow> Inl e
      | Inr q \<Rightarrow>
          if q \<in> fs_dirs s \<or> fs_files s q \<noteq> None then Inl EEXIST
          else Inr (s\<lparr>fs_dirs := insert q (fs_dirs s)\<rparr>))"

text \<open>
  \<open>Path.mkdir(parents=True, exist_ok=True)\<close>: on \<open>FileNotFoundError\<close> it makes the parent
  the same way and tries once more; any other error passes when the path is a directory.
  The result is the file system reached and the exception, if one was raised.
\<close>

function mkdir_parents :: "fs \<Rightarrow> ppath \<Rightarrow> fs \<times> exn option" where
  "mkdir_parents s p =
     (case os_mkdir s p of
        Inr s' \<Rightarrow> (s', None)
      | Inl e \<Rightarrow>
          if e = ENOENT then
            (if path_parent p = p then (s, Some (OSError ENOENT))
             else (case mkdir_parents s (path_parent p) of
                     (s', Some x) \<Rightarrow> (s', Some x)
                   | (s', None) \<Rightarrow>
                       (case os_mkdir s' p of
                          Inr s'' \<Rightarrow> (s'', None)
                        | Inl e' \<Rightarrow>
                            if e' = ENOENT then (s', Some (OSError ENOENT))
                            else if is_dir s' p then (s', None)
                            else (s', Some (OSError e')))))
          else if is_dir s p then (s, None)
          else (s, Some (OSError e)))"
  by pat_completeness auto
termination
proof (relation "measure (\<lambda>(s, p). length (parts p))")
  show "wf (measure (\<lambda>(s, p). length (parts p)))" by simp
next
  fix s :: fs and p :: ppath and e :: errno
  assume "path_parent p \<noteq> p"
  then have "parts p \<noteq> []" by (cases p) (auto simp: path_parent_def)
  then show "((s, path_parent p), (s, p)) \<in> measure (\<lambda>(s, p). length (parts p))"
    by (simp add: path_parent_def)
qed

declare mkdir_parents.simps [simp del]

text \<open>
  A member of the archive: its name, its type, its size and, for a regular file, its
  bytes. Members of other types (links, devices) are outside this model.
\<close>

datatype member_type = REGTYPE | DIRTYPE

record tarinfo =
  ti_name :: string
  ti_type :: member_type
  ti_size :: nat
  ti_data :: "8 word list"

text \<open>
  \<open>arch.extract(member, path, set_attrs=True)\<close> for these two types: a regular file is
  opened for writing at \<open>path / member.name\<close>, a directory is made there and may exist
  already. \<open>unpack\<close> has made the parent directory just before, so the directories above
  the target are not made here again.
\<close>

definition tar_extract :: "fs \<Rightarrow> tarinfo \<Rightarrow> ppath \<Rightarrow> fs \<times> exn option" where
  "tar_extract s member path =
     (let targetpath = joinpath path (parse_path (ti_name member))
      in case locate s targetpath of
           Inl e \<Rightarrow> (s, Some (OSError e))
         | Inr q \<Rightarrow>
             (case ti_type member of
                REGTYPE \<Rightarrow>
                  if q \<in> fs_dirs s then (s, Some (OSError EISDIR))
                  else (s\<lparr>fs_files := (fs_files s)(q \<mapsto> ti_data member)\<rparr>, None)
              | DIRTYPE \<Rightarrow>
                  if q \<in> fs_dirs s then (s, None)
                  else if fs_files s q \<noteq> None then (s, Some (OSError EEXIST))
                  else (s\<lparr>fs_dirs := insert q (fs_dirs s)\<rparr>, None)))"

text \<open>The progress bar: its total, its count and its postfix.\<close>

record pbar =
  pb_total :: nat
  pb_n :: nat
  pb_postfix :: string

text \<open>
  The body of the loop of \<open>unpack\<close> for one member \<open>f\<close>, on the file system and the
  progress bar: the state reached, and the exception if one was raised.
\<close>

definition unpack_member :: "ppath \<Rightarrow> tarinfo \<Rightarrow> fs \<times> pbar \<Rightarrow> (fs \<times> pbar) \<times> exn option" where
  "unpack_member extrDir f st =
     (let s = fst st; pb = snd st;
          fp = absolute (fs_cwd s) (joinpath extrDir (parse_path (ti_name f)))
      in case isSubdir (fs_cwd s) extrDir fp of
           Inl e \<Rightarrow> (st, Some e)
         | Inr b \<Rightarrow>
             if b then
               (case (if is_file s fp \<or> is_symlink s fp then unlink s fp else Inr s) of
                  Inl e \<Rightarrow> (st, Some e)
                | Inr s1 \<Rightarrow>
                    (case mkdir_parents s1 (path_parent fp) of
                       (s2, Some e) \<Rightarrow> ((s2, pb), Some e)
                     | (s2, None) \<Rightarrow>
                         (case tar_extract s2 f extrDir of
                            (s3, Some e) \<Rightarrow> ((s3, pb), Some e)
                          | (s3, None) \<Rightarrow>
                              (case relative_to fp extrDir of
                                 Inl e \<Rightarrow> ((s3, pb), Some e)
                               | Inr rel \<Rightarrow>
                                   ((s3, pb\<lparr>pb_postfix := path_str rel,
                                              pb_n := pb_n pb + ti_size f\<rparr>), None)))))
             else (st, None))"

fun members_loop :: "ppath \<Rightarrow> tarinfo list \<Rightarrow> fs \<times> pbar \<Rightarrow> (fs \<times> pbar) \<times> exn option" where
  "members_loop extrDir [] st = (st, None)"
| "members_loop extrDir (f # rest) st =
     (case unpack_member extrDir f st of
        (st', Some e) \<Rightarrow> (st', Some e)
      | (st', None) \<Rightarrow> members_loop extrDir rest st')"

text \<open>
  The archive file: its bytes, and what \<open>tarfile\<close> reads from it, an exception or the
  members in their order.
\<close>

record archive =
  arch_bytes :: "8 word list"
  arch_members :: "exn + tarinfo list"

text \<open>\<open>struct.unpack("<I", b)[0]\<close> on four bytes.\<close>

definition le_uint32 :: "8 word list \<Rightarrow> 32 word" where
  "le_uint32 b =
     ucast (b ! 0) OR push_bit 8 (ucast (b ! 1)) OR push_bit 16 (ucast (b ! 2))
       OR push_bit 24 (ucast (b ! 3))"

text \<open>The first block of \<open>unpack\<close>; seeking before the start of the file raises \<open>OSError\<close>.\<close>

definition read_unpackedSize :: "8 word list \<Rightarrow> exn + 32 word" where
  "read_unpackedSize bs =
     (let packedSize = length bs
      in if packedSize < 4 then Inl (OSError EINVAL)
         else Inr (le_uint32 (take 4 (drop (packedSize - 4) bs))))"

definition unpack :: "fs \<Rightarrow> archive \<Rightarrow> ppath \<Rightarrow> fs \<times> exn option" where
  "unpack s arch extrDir0 =
     (let extrDir = resolve (fs_cwd s) extrDir0
      in case read_unpackedSize (arch_bytes arch) of
           Inl e \<Rightarrow> (s, Some e)
         | Inr unpackedSize \<Rightarrow>
             (case arch_members arch of
                Inl e \<Rightarrow> (s, Some e)
              | Inr members \<Rightarrow>
                  (let r = members_loop extrDir members
                             (s, \<lparr>pb_total = unat unpackedSize, pb_n = 0, pb_postfix = []\<rparr>)
                   in (fst (fst r), snd r))))"

section \<open>Concrete inputs\<close>

definition tA :: DownloadTarget where
  "tA = \<lparr>t_name = ''a'', t_version = ''3.13.4'', t_prerelease = False, t_created = 5,
          t_published = 1, t_files = []\<rparr>"

definition tB :: DownloadTarget where
  "tB = \<lparr>t_name = ''b'', t_version = ''3.13.3'', t_prerelease = False, t_created = 4,
          t_published = 9, t_files = []\<rparr>"

definition tC :: DownloadTarget where
  "tC = \<lparr>t_name = ''c'', t_version = ''3.13.2'', t_prerelease = False, t_created = 4,
          t_published = 7, t_files = []\<rparr>"

text \<open>
  A release that carries its signature twice, as \<open>.asc\<close> and as \<open>.sig\<close>; the three
  patterns stand for the ones \<open>doBuild\<close> compiles, and the tag pattern for \<open>vmTagRx\<close>.
\<close>

definition ex_rxs :: "(role \<times> regex) list" where
  "ex_rxs =
     [(Some ''binary'', \<lambda>s. s = ''cmake-3.13.4-Linux-x86_64.tar.gz''),
      (Some ''hashes'', \<lambda>s. s = ''cmake-3.13.4-SHA-256.txt''),
      (Some ''hashesSig'',
         \<lambda>s. s = ''cmake-3.13.4-SHA-256.txt.asc'' \<or> s = ''cmake-3.13.4-SHA-256.txt.sig'')]"

definition ex_tagRx :: "string \<Rightarrow> string option" where
  "ex_tagRx s = (if take 1 s = ''v'' then Some (drop 1 s) else None)"

definition ex_asset :: "string \<Rightarrow> asset" where
  "ex_asset n =
     \<lparr>a_name = n, a_created_at = 3, a_updated_at = 4, a_browser_download_url = ''https://h/'' @ n\<rparr>"

definition ex_release :: release where
  "ex_release =
     \<lparr>r_name = ''v3.13.4'', r_tag_name = ''v3.13.4'', r_prerelease = False, r_created_at = 1,
      r_published_at = 2,
      r_assets = [ex_asset ''cmake-3.13.4-Linux-x86_64.tar.gz'', ex_asset ''cmake-3.13.4-SHA-256.txt'',
                  ex_asset ''cmake-3.13.4-SHA-256.txt.asc'', ex_asset ''cmake-3.13.4-SHA-256.txt.sig'']\<rparr>"

text \<open>
  A release of the same shape that lacks the manifest, and the first release published once
  more under another title.
\<close>

definition ex_partial :: release where
  "ex_partial =
     \<lparr>r_name = ''v3.13.3'', r_tag_name = ''v3.13.3'', r_prerelease = False, r_created_at = 0,
      r_published_at = 1,
      r_assets = [ex_asset ''cmake-3.13.4-Linux-x86_64.tar.gz'',
                  ex_asset ''cmake-3.13.4-SHA-256.txt.asc'']\<rparr>"

definition ex_rebuilt :: release where
  "ex_rebuilt = ex_release\<lparr>r_name := ''rebuilt'', r_created_at := 5, r_published_at := 6\<rparr>"

text \<open>
  A keyring holding the signing key with two subkeys, and a signature library that reports
  the given signer fingerprints.
\<close>

definition ex_keyring :: "key list" where
  "ex_keyring =
     [\<lparr>k_fpr = ''CBA23971357C2E6590D9EFD3EC8FEF3A7BFB4EDA'',
       k_subkeys = [''CBA23971357C2E6590D9EFD3EC8FEF3A7BFB4EDA'',
                    ''2D2CEF1034921684A4E0B5A8A1C5D9E6F7081234'']\<rparr>]"

text \<open>Another key of the keyring, which nobody asks for.\<close>

definition ex_other_key :: key where
  "ex_other_key =
     \<lparr>k_fpr = ''0F1E2D3C4B5A69788796A5B4C3D2E1F001234567'',
      k_subkeys = [''0F1E2D3C4B5A69788796A5B4C3D2E1F001234567'',
                   ''89ABCDEF0123456789ABCDEF0123456789ABCDEF'']\<rparr>"

definition ex_gpg :: "string list \<Rightarrow> verifier" where
  "ex_gpg sigs signedData signature = Inr sigs"

text \<open>A mapping without repeated filenames, with a digest in mixed case.\<close>

definition ex_manifest :: "(string \<times> string) list" where
  "ex_manifest = [(''foo.tar.gz'', ''AbC123''), (''bar.txt'', ''00ff'')]"

text \<open>
  A file system with the target directory \<open>/t/r\<close> and the working directory \<open>/t\<close>,
  members that are regular files of two bytes, and an archive of two leading bytes, a
  trailer and such members.
\<close>

definition ex_fs :: fs where
  "ex_fs = \<lparr>fs_cwd = [''t''], fs_dirs = {[], [''t''], [''t'', ''r'']}, fs_files = Map.empty\<rparr>"

definition ex_member :: "string \<Rightarrow> tarinfo" where
  "ex_member n = \<lparr>ti_name = n, ti_type = REGTYPE, ti_size = 2, ti_data = [1, 2]\<rparr>"

definition ex_archive :: "8 word list \<Rightarrow> string list \<Rightarrow> archive" where
  "ex_archive trailer names =
     \<lparr>arch_bytes = [31, 139] @ trailer, arch_members = Inr (map ex_member names)\<rparr>"

section \<open>The order of targets\<close>


lemma tuple_gt_lex: "tuple_gt a b \<longleftrightarrow> fst a > fst b \<or> (fst a = fst b \<and> snd a > snd b)"
  by (auto simp: tuple_gt_def)

lemma tuple_lt_gt: "tuple_lt a b \<longleftrightarrow> tuple_gt b a"
  by (auto simp: tuple_gt_def tuple_lt_def)

lemma target_gt_trans: "target_gt a b \<Longrightarrow> target_gt b c \<Longrightarrow> target_gt a c"
  by (auto simp: target_gt_def tuple_gt_lex)

lemma not_gt_step: "\<not> target_gt t m \<Longrightarrow> \<not> target_gt t (if target_gt x m then x else m)"
  by (auto simp: target_gt_def tuple_gt_lex)

lemma max_loop_mem: "max_loop m xs \<in> set (m # xs)"
  by (induction xs arbitrary: m) auto

lemma max_loop_ge_init: "\<not> target_gt t m \<Longrightarrow> \<not> target_gt t (max_loop m xs)"
proof (induction xs arbitrary: m)
  case Nil
  then show ?case by simp
next
  case (Cons x xs)
  from Cons.prems have "\<not> target_gt t (if target_gt x m then x else m)"
    by (rule not_gt_step)
  then show ?case using Cons.IH by simp
qed

lemma max_loop_upper: "t \<in> set (m # xs) \<Longrightarrow> \<not> target_gt t (max_loop m xs)"
proof (induction xs arbitrary: m)
  case Nil
  then show ?case by (simp add: target_gt_def tuple_gt_lex)
next
  case (Cons x xs)
  let ?m = "if target_gt x m then x else m"
  have irrefl: "\<And>u. \<not> target_gt u u" by (simp add: target_gt_def tuple_gt_lex)
  from Cons.prems consider "t = m" | "t = x" | "t \<in> set xs" by auto
  then show ?case
  proof cases
    case 1
    have "\<not> target_gt m ?m" using irrefl[of m] by (auto simp: target_gt_def tuple_gt_lex)
    then show ?thesis using 1 max_loop_ge_init by simp
  next
    case 2
    have "\<not> target_gt x ?m" using irrefl[of x] by auto
    then show ?thesis using 2 max_loop_ge_init by simp
  next
    case 3
    then show ?thesis using Cons.IH[of ?m] by simp
  qed
qed

text \<open>
  C5. The comparison behind \<open>max(tgts)\<close> orders targets by \<open>(created, published)\<close>
  lexicographically: \<open>published\<close> decides only when \<open>created\<close> is equal; \<open><\<close> is the
  converse of \<open>>\<close>, \<open>==\<close> holds exactly when neither is greater, \<open>>\<close> is transitive, and
  on a non-empty list \<open>max\<close> returns a member that no member is greater than.
\<close>

theorem latest_order:
  "(target_gt a b \<longleftrightarrow>
      t_created a > t_created b \<or> (t_created a = t_created b \<and> t_published a > t_published b))
   \<and> (target_lt a b \<longleftrightarrow> target_gt b a)
   \<and> (target_eq a b \<longleftrightarrow> \<not> target_gt a b \<and> \<not> target_gt b a)
   \<and> (target_gt a b \<and> target_gt b c \<longrightarrow> target_gt a c)
   \<and> (tgts \<noteq> [] \<longrightarrow>
        (\<exists>m. py_max tgts = Inr m \<and> m \<in> set tgts \<and> (\<forall>t \<in> set tgts. \<not> target_gt t m)))"
proof (intro conjI)
  show "target_gt a b \<longleftrightarrow>
      t_created a > t_created b \<or> (t_created a = t_created b \<and> t_published a > t_published b)"
    by (simp add: target_gt_def tuple_gt_lex cmpTuple_def)
  show "target_lt a b \<longleftrightarrow> target_gt b a"
    by (simp add: target_lt_def target_gt_def tuple_lt_gt)
  show "target_eq a b \<longleftrightarrow> \<not> target_gt a b \<and> \<not> target_gt b a"
    by (auto simp: target_eq_def target_gt_def tuple_gt_lex prod_eq_iff)
  show "target_gt a b \<and> target_gt b c \<longrightarrow> target_gt a c"
    using target_gt_trans by blast
  show "tgts \<noteq> [] \<longrightarrow>
        (\<exists>m. py_max tgts = Inr m \<and> m \<in> set tgts \<and> (\<forall>t \<in> set tgts. \<not> target_gt t m))"
  proof
    assume "tgts \<noteq> []"
    then obtain x xs where tg: "tgts = x # xs" by (cases tgts) auto
    have "py_max tgts = Inr (max_loop x xs)" by (simp add: py_max_def tg)
    moreover have "max_loop x xs \<in> set tgts" using max_loop_mem[of x xs] by (simp add: tg)
    moreover have "\<forall>t \<in> set tgts. \<not> target_gt t (max_loop x xs)"
      using max_loop_upper[of _ x xs] by (simp add: tg)
    ultimately show "\<exists>m. py_max tgts = Inr m \<and> m \<in> set tgts \<and> (\<forall>t \<in> set tgts. \<not> target_gt t m)"
      by blast
  qed
qed


theorem latest_order_witness:
  "target_gt tA tB \<and> target_gt tB tC \<and> target_gt tA tC \<and> [tC, tA, tB] \<noteq> []
   \<and> py_max [tC, tA, tB] = Inr tA"
  using latest_order [of tA tB tC "[tC, tA, tB]"]
  by (simp add: tA_def tB_def tC_def py_max_def target_gt_def tuple_gt_def cmpTuple_def)

section \<open>Targets carry every role\<close>

lemma dict_set_keys: "fst ` set (dict_set k v d) = insert k (fst ` set d)"
  by (induction d) auto

lemma dict_set_distinct: "distinct (map fst d) \<Longrightarrow> distinct (map fst (dict_set k v d))"
proof (induction d)
  case Nil
  then show ?case by simp
next
  case (Cons p ps)
  have "set (map fst (dict_set k v ps)) = insert k (set (map fst ps))"
    using dict_set_keys[of k v ps] by simp
  then show ?case using Cons by auto
qed

lemma map_of_dict_set: "map_of (dict_set k v d) = (map_of d)(k \<mapsto> v)"
  by (induction d) (auto simp: fun_eq_iff)

lemma roles_loop_keys:
  "fst ` set (roles_loop a rxs files) =
     fst ` set files \<union> {role. \<exists>rx. (role, rx) \<in> set rxs \<and> rx (a_name a)}"
  by (induction a rxs files rule: roles_loop.induct) (auto simp: dict_set_keys)

lemma roles_loop_distinct:
  "distinct (map fst files) \<Longrightarrow> distinct (map fst (roles_loop a rxs files))"
  by (induction a rxs files rule: roles_loop.induct) (auto simp: dict_set_distinct)

lemma roles_loop_map_of:
  "distinct (map fst rxs) \<Longrightarrow>
   map_of (roles_loop a rxs files) role =
     (case map_of rxs role of
        None \<Rightarrow> map_of files role
      | Some rx \<Rightarrow> if rx (a_name a) then Some (mk_file role a) else map_of files role)"
proof (induction a rxs files rule: roles_loop.induct)
  case (1 a files)
  then show ?case by simp
next
  case (2 a r rx rxs files)
  then have d: "distinct (map fst rxs)" and nr: "map_of rxs r = None"
    by (auto simp: map_of_eq_None_iff)
  show ?case
  proof (cases "rx (a_name a)")
    case False
    then show ?thesis using 2 d nr by (auto split: option.splits)
  next
    case True
    then show ?thesis using 2 d nr
      by (auto simp: map_of_dict_set split: option.splits)
  qed
qed

lemma assets_loop_keys:
  "fst ` set (assets_loop as rxs files) =
     fst ` set files \<union> {role. \<exists>rx a. (role, rx) \<in> set rxs \<and> a \<in> set as \<and> rx (a_name a)}"
proof (induction as arbitrary: files)
  case Nil
  then show ?case by simp
next
  case (Cons a as)
  show ?case unfolding assets_loop.simps Cons.IH roles_loop_keys by auto
qed

lemma assets_loop_distinct:
  "distinct (map fst files) \<Longrightarrow> distinct (map fst (assets_loop as rxs files))"
  by (induction as arbitrary: files) (auto simp: roles_loop_distinct)

lemma assets_loop_map_of:
  "distinct (map fst rxs) \<Longrightarrow>
   map_of (assets_loop as rxs files) role =
     (case map_of rxs role of
        None \<Rightarrow> map_of files role
      | Some rx \<Rightarrow>
          (case filter (\<lambda>a. rx (a_name a)) as of
             [] \<Rightarrow> map_of files role
           | m # ms \<Rightarrow> Some (mk_file role (last (m # ms)))))"
proof (induction as arbitrary: files)
  case Nil
  then show ?case by (simp split: option.splits)
next
  case (Cons a as)
  show ?case
    unfolding assets_loop.simps Cons.IH[OF Cons.prems] roles_loop_map_of[OF Cons.prems]
    by (auto split: option.splits list.splits)
qed

text \<open>The number of entries equals the number of roles exactly when every role matched.\<close>

lemma assets_loop_complete:
  assumes "distinct (map fst rxs)"
  shows "length (assets_loop as rxs []) = length rxs \<longleftrightarrow>
         (\<forall>(role, rx) \<in> set rxs. \<exists>a \<in> set as. rx (a_name a))"
proof -
  let ?files = "assets_loop as rxs []"
  let ?K = "{role. \<exists>rx a. (role, rx) \<in> set rxs \<and> a \<in> set as \<and> rx (a_name a)}"
  have keys: "fst ` set ?files = ?K" using assets_loop_keys[of as rxs "[]"] by simp
  have dist: "distinct (map fst ?files)" by (rule assets_loop_distinct) simp
  have lf: "length ?files = card ?K"
    using distinct_card[OF dist] keys by (simp add: image_set[symmetric] del: image_set)
  have lr: "length rxs = card (fst ` set rxs)"
    using distinct_card[OF assms] by (simp add: image_set[symmetric] del: image_set)
  have sub: "?K \<subseteq> fst ` set rxs" by force
  have fin: "finite (fst ` set rxs)" by simp
  have "card ?K = card (fst ` set rxs) \<longleftrightarrow> ?K = fst ` set rxs"
    using card_subset_eq[OF fin sub] by auto
  also have "\<dots> \<longleftrightarrow> (\<forall>(role, rx) \<in> set rxs. \<exists>a \<in> set as. rx (a_name a))"
  proof
    assume eq: "?K = fst ` set rxs"
    show "\<forall>(role, rx) \<in> set rxs. \<exists>a \<in> set as. rx (a_name a)"
    proof (clarify)
      fix role rx assume m: "(role, rx) \<in> set rxs"
      then have "role \<in> ?K" using eq by force
      then obtain rx' a where m': "(role, rx') \<in> set rxs" and a: "a \<in> set as" "rx' (a_name a)"
        by blast
      have "rx' = rx" using assms m m' by (meson eq_key_imp_eq_value)
      then show "\<exists>a \<in> set as. rx (a_name a)" using a by blast
    qed
  next
    assume all: "\<forall>(role, rx) \<in> set rxs. \<exists>a \<in> set as. rx (a_name a)"
    show "?K = fst ` set rxs"
    proof
      show "?K \<subseteq> fst ` set rxs" by (rule sub)
      show "fst ` set rxs \<subseteq> ?K" using all by fastforce
    qed
  qed
  finally show ?thesis using lf lr by simp
qed


lemma releases_loop_mem:
  "t \<in> set (releases_loop titleRx tagRx rxs rs) \<Longrightarrow>
   \<exists>r \<in> set rs. release_target titleRx tagRx rxs r = Some t"
  by (induction rs) (auto split: option.splits)

lemma releases_loop_map_filter:
  "releases_loop titleRx tagRx rxs rs =
     map the (filter (\<lambda>x. x \<noteq> None) (map (release_target titleRx tagRx rxs) rs))"
  by (induction rs) (auto split: option.splits)

text \<open>
  C4 (amended). With the roles of the dictionary distinct, a release yields a target exactly
  when it passes the title and tag filters and every role's pattern matches at least one of
  its assets. A yielded target has one file per role, built from the last asset the role's
  pattern matches, so \<open>len(files) = len(downloadFileNamesRxs)\<close>. \<open>getTargets\<close> returns
  the targets of exactly those releases, one for each and in the order of the releases: every
  target it returns is the target of a release, and the target of every release is returned.
\<close>

theorem getTargets_all_roles:
  assumes "distinct (map fst rxs)"
  shows "(release_target titleRx tagRx rxs r \<noteq> None \<longleftrightarrow>
            (titleRx = None \<or> the titleRx (r_name r)) \<and> tagRx (r_tag_name r) \<noteq> None
            \<and> (\<forall>(role, rx) \<in> set rxs. \<exists>a \<in> set (r_assets r). rx (a_name a)))
       \<and> (\<forall>t. release_target titleRx tagRx rxs r = Some t \<longrightarrow>
              length (t_files t) = length rxs
              \<and> (\<forall>(role, rx) \<in> set rxs.
                    map_of (t_files t) role =
                      Some (mk_file role (last (filter (\<lambda>a. rx (a_name a)) (r_assets r))))))
       \<and> (\<forall>ts. getTargets titleRx tagRx (RxDict rxs) (Releases rs) = Inr ts \<longrightarrow>
              (\<forall>t \<in> set ts. length (t_files t) = length rxs
                 \<and> (\<exists>r \<in> set rs. release_target titleRx tagRx rxs r = Some t)))
       \<and> getTargets titleRx tagRx (RxDict rxs) (Releases rs) =
            Inr (map the (filter (\<lambda>x. x \<noteq> None) (map (release_target titleRx tagRx rxs) rs)))
       \<and> (\<forall>ts. getTargets titleRx tagRx (RxDict rxs) (Releases rs) = Inr ts \<longrightarrow>
              (\<forall>t. t \<in> set ts \<longleftrightarrow> (\<exists>r \<in> set rs. release_target titleRx tagRx rxs r = Some t)))"
proof (intro conjI)
  note complete = assets_loop_complete[OF assms, of "r_assets r"]
  show "release_target titleRx tagRx rxs r \<noteq> None \<longleftrightarrow>
            (titleRx = None \<or> the titleRx (r_name r)) \<and> tagRx (r_tag_name r) \<noteq> None
            \<and> (\<forall>(role, rx) \<in> set rxs. \<exists>a \<in> set (r_assets r). rx (a_name a))"
    using complete by (auto simp: release_target_def Let_def split: option.splits)
  have files: "release_target titleRx tagRx rxs r' = Some t \<Longrightarrow>
      t_files t = assets_loop (r_assets r') rxs [] \<and> length (t_files t) = length rxs" for t r'
    by (auto simp: release_target_def Let_def split: option.splits if_splits)
  show "\<forall>t. release_target titleRx tagRx rxs r = Some t \<longrightarrow>
              length (t_files t) = length rxs
              \<and> (\<forall>(role, rx) \<in> set rxs.
                    map_of (t_files t) role =
                      Some (mk_file role (last (filter (\<lambda>a. rx (a_name a)) (r_assets r)))))"
  proof (intro allI impI conjI)
    fix t assume t: "release_target titleRx tagRx rxs r = Some t"
    show "length (t_files t) = length rxs" by (rule conjunct2[OF files[OF t]])
    have "length (assets_loop (r_assets r) rxs []) = length rxs"
      using files[OF t] by metis
    then have all: "\<forall>(role, rx) \<in> set rxs. \<exists>a \<in> set (r_assets r). rx (a_name a)"
      using complete by blast
    show "\<forall>(role, rx) \<in> set rxs.
            map_of (t_files t) role =
              Some (mk_file role (last (filter (\<lambda>a. rx (a_name a)) (r_assets r))))"
    proof clarify
      fix role rx assume m: "(role, rx) \<in> set rxs"
      then have mo: "map_of rxs role = Some rx" using assms by simp
      from m all have "filter (\<lambda>a. rx (a_name a)) (r_assets r) \<noteq> []"
        by (auto simp: filter_empty_conv)
      then show "map_of (t_files t) role =
              Some (mk_file role (last (filter (\<lambda>a. rx (a_name a)) (r_assets r))))"
        using files[OF t] assets_loop_map_of[OF assms, of "r_assets r" "[]" role] mo
        by (auto split: list.splits)
    qed
  qed
  show "\<forall>ts. getTargets titleRx tagRx (RxDict rxs) (Releases rs) = Inr ts \<longrightarrow>
              (\<forall>t \<in> set ts. length (t_files t) = length rxs
                 \<and> (\<exists>r \<in> set rs. release_target titleRx tagRx rxs r = Some t))"
  proof (intro allI impI ballI)
    fix ts t
    assume "getTargets titleRx tagRx (RxDict rxs) (Releases rs) = Inr ts" and "t \<in> set ts"
    then have "t \<in> set (releases_loop titleRx tagRx rxs rs)"
      by (simp add: getTargets_def)
    then obtain r' where r': "r' \<in> set rs" "release_target titleRx tagRx rxs r' = Some t"
      using releases_loop_mem by blast
    then show "length (t_files t) = length rxs
                 \<and> (\<exists>r \<in> set rs. release_target titleRx tagRx rxs r = Some t)"
      using files[OF r'(2)] by blast
  qed
  show g: "getTargets titleRx tagRx (RxDict rxs) (Releases rs) =
              Inr (map the (filter (\<lambda>x. x \<noteq> None) (map (release_target titleRx tagRx rxs) rs)))"
    by (simp add: getTargets_def releases_loop_map_filter)
  show "\<forall>ts. getTargets titleRx tagRx (RxDict rxs) (Releases rs) = Inr ts \<longrightarrow>
              (\<forall>t. t \<in> set ts \<longleftrightarrow> (\<exists>r \<in> set rs. release_target titleRx tagRx rxs r = Some t))"
  proof (intro allI impI)
    fix ts t
    assume "getTargets titleRx tagRx (RxDict rxs) (Releases rs) = Inr ts"
    then have ts: "ts = map the (filter (\<lambda>x. x \<noteq> None) (map (release_target titleRx tagRx rxs) rs))"
      using g by simp
    show "t \<in> set ts \<longleftrightarrow> (\<exists>r \<in> set rs. release_target titleRx tagRx rxs r = Some t)"
      unfolding ts by force
  qed
qed

theorem getTargets_all_roles_witness:
  "distinct (map fst ex_rxs)
   \<and> release_target None ex_tagRx ex_rxs ex_partial = None
   \<and> (\<exists>t. release_target None ex_tagRx ex_rxs ex_release = Some t
          \<and> length (t_files t) = 3
          \<and> map_of (t_files t) (Some ''hashesSig'') =
              Some (mk_file (Some ''hashesSig'') (ex_asset ''cmake-3.13.4-SHA-256.txt.sig''))
          \<and> (\<exists>t'. release_target None ex_tagRx ex_rxs ex_rebuilt = Some t' \<and> t' \<noteq> t
                \<and> getTargets None ex_tagRx (RxDict ex_rxs)
                    (Releases [ex_release, ex_partial, ex_rebuilt]) = Inr [t, t']))"
proof -
  have d: "distinct (map fst ex_rxs)" by (simp add: ex_rxs_def)
  have l: "length ex_rxs = 3" by (simp add: ex_rxs_def)
  have "release_target None ex_tagRx ex_rxs ex_release \<noteq> None"
    by (simp add: release_target_def ex_release_def ex_rxs_def ex_asset_def ex_tagRx_def)
  then obtain t where t: "release_target None ex_tagRx ex_rxs ex_release = Some t" by blast
  have "release_target None ex_tagRx ex_rxs ex_rebuilt \<noteq> None"
    by (simp add: release_target_def ex_rebuilt_def ex_release_def ex_rxs_def ex_asset_def ex_tagRx_def)
  then obtain t' where t': "release_target None ex_tagRx ex_rxs ex_rebuilt = Some t'" by blast
  have p: "release_target None ex_tagRx ex_rxs ex_partial = None"
    by (simp add: release_target_def ex_partial_def ex_rxs_def ex_asset_def ex_tagRx_def)
  have "t_name t = ''v3.13.4''" using t
    by (auto simp: release_target_def ex_release_def Let_def split: option.splits if_splits)
  moreover have "t_name t' = ''rebuilt''" using t'
    by (auto simp: release_target_def ex_rebuilt_def ex_release_def Let_def split: option.splits if_splits)
  ultimately have ne: "t' \<noteq> t" by auto
  have m: "(Some ''hashesSig'',
         \<lambda>s. s = ''cmake-3.13.4-SHA-256.txt.asc'' \<or> s = ''cmake-3.13.4-SHA-256.txt.sig'') \<in> set ex_rxs"
    by (simp add: ex_rxs_def)
  have f: "last (filter (\<lambda>a. a_name a = ''cmake-3.13.4-SHA-256.txt.asc'' \<or> a_name a = ''cmake-3.13.4-SHA-256.txt.sig'') (r_assets ex_release)) = ex_asset ''cmake-3.13.4-SHA-256.txt.sig''"
    by (simp add: ex_release_def ex_asset_def)
  note th = getTargets_all_roles [OF d, of None ex_tagRx ex_release "[ex_release, ex_partial, ex_rebuilt]"]
  have g: "getTargets None ex_tagRx (RxDict ex_rxs) (Releases [ex_release, ex_partial, ex_rebuilt]) =
             Inr [t, t']"
    using th t t' p by simp
  have "length (t_files t) = 3
          \<and> map_of (t_files t) (Some ''hashesSig'') =
              Some (mk_file (Some ''hashesSig'') (ex_asset ''cmake-3.13.4-SHA-256.txt.sig''))"
    using th t l m f by fastforce
  then show ?thesis using d t t' p g ne by blast
qed

text \<open>
  C4 as stated fails: the release below yields a target although the pattern of the role
  \<open>hashesSig\<close> matches two of its assets, not exactly one.
\<close>
theorem getTargets_exactly_one_counterexample:
  "release_target None ex_tagRx ex_rxs ex_release \<noteq> None
   \<and> \<not> (\<forall>(role, rx) \<in> set ex_rxs.
           length (filter (\<lambda>a. rx (a_name a)) (r_assets ex_release)) = 1)"
proof -
  have l: "length ex_rxs = 3" by (simp add: ex_rxs_def)
  have y: "release_target None ex_tagRx ex_rxs ex_release \<noteq> None"
    by (simp add: release_target_def ex_release_def ex_rxs_def ex_asset_def ex_tagRx_def)
  have "length (filter (\<lambda>a. a_name a = ''cmake-3.13.4-SHA-256.txt.asc'' \<or> a_name a = ''cmake-3.13.4-SHA-256.txt.sig'') (r_assets ex_release)) = 2"
    by (simp add: ex_release_def ex_asset_def)
  then show ?thesis using y by (auto simp: ex_rxs_def)
qed

section \<open>Signature verification\<close>

lemmas char_eval = lower_char_def upper_char_def str_lower_def str_upper_def char_of_def bit_0

lemma signatures_loop_iff: "signatures_loop allowed sigs \<longleftrightarrow> set sigs \<inter> allowed \<noteq> {}"
  by (induction sigs) auto

lemma findKeyByFingerprint_first:
  "\<forall>k' \<in> set pre. k_fpr k' \<noteq> fp \<Longrightarrow> k_fpr k = fp \<Longrightarrow>
   findKeyByFingerprint (pre @ k # post) fp = Some k"
  by (induction pre) auto

lemma findKeyByFingerprint_none:
  "\<forall>k \<in> set keyring. k_fpr k \<noteq> fp \<Longrightarrow> findKeyByFingerprint keyring fp = None"
  by (induction keyring) auto

text \<open>
  C3. \<open>verifyBlob\<close> returns a value exactly when the trusted set is built, the signature
  library returns, and some observed signer fingerprint is in the trusted set; the value is
  then \<open>True\<close>, never \<open>False\<close>. With no observed signer in the trusted set it raises an
  exception whose message lists every observed signer fingerprint, and an exception of the
  signature library is never turned into a result. The trusted set is: for a key
  fingerprint, the fingerprints of the subkeys of the first key of the keyring whose
  fingerprint is the given one in upper case, and no other key's (with no such key
  \<open>verifyBlob\<close> raises \<open>AttributeError\<close>); for a subkey fingerprint alone, that fingerprint
  in upper case; with neither, the empty set, and then nothing is accepted.
\<close>

theorem verifyBlob_intersects:
  "(verifyBlob keyring gpg_verify signedData signature keyFingerprint subkeyFingerprint = Inr b \<longleftrightarrow>
      b \<and> (\<exists>allowed sigs.
             allowedFingerprints keyring keyFingerprint subkeyFingerprint = Inr allowed
             \<and> gpg_verify signedData signature = Inr sigs \<and> set sigs \<inter> allowed \<noteq> {}))
   \<and> (allowedFingerprints keyring keyFingerprint subkeyFingerprint = Inr allowed
        \<and> gpg_verify signedData signature = Inr sigs \<and> set sigs \<inter> allowed = {} \<longrightarrow>
        verifyBlob keyring gpg_verify signedData signature keyFingerprint subkeyFingerprint =
          Inl (PyException (''Wrong public keys used: '' @ join '' '' sigs)))
   \<and> (gpg_verify signedData signature = Inl e \<longrightarrow>
        (\<exists>e'. verifyBlob keyring gpg_verify signedData signature keyFingerprint subkeyFingerprint = Inl e'))
   \<and> (truthy keyFingerprint \<and> keyring = pre @ k # post
        \<and> k_fpr k = str_upper (the keyFingerprint)
        \<and> (\<forall>k' \<in> set pre. k_fpr k' \<noteq> str_upper (the keyFingerprint)) \<longrightarrow>
        allowedFingerprints keyring keyFingerprint subkeyFingerprint = Inr (set (k_subkeys k))
        \<and> (gpg_verify signedData signature = Inr sigs \<longrightarrow>
             verifyBlob keyring gpg_verify signedData signature keyFingerprint subkeyFingerprint =
               (if set sigs \<inter> set (k_subkeys k) \<noteq> {} then Inr True
                else Inl (PyException (''Wrong public keys used: '' @ join '' '' sigs)))))
   \<and> (truthy keyFingerprint \<and> (\<forall>k' \<in> set keyring. k_fpr k' \<noteq> str_upper (the keyFingerprint)) \<longrightarrow>
        verifyBlob keyring gpg_verify signedData signature keyFingerprint subkeyFingerprint =
          Inl AttributeError)
   \<and> (\<not> truthy keyFingerprint \<and> truthy subkeyFingerprint \<longrightarrow>
        allowedFingerprints keyring keyFingerprint subkeyFingerprint =
          Inr {str_upper (the subkeyFingerprint)}
        \<and> (gpg_verify signedData signature = Inr sigs \<longrightarrow>
             verifyBlob keyring gpg_verify signedData signature keyFingerprint subkeyFingerprint =
               (if str_upper (the subkeyFingerprint) \<in> set sigs then Inr True
                else Inl (PyException (''Wrong public keys used: '' @ join '' '' sigs)))))
   \<and> (\<not> truthy keyFingerprint \<and> \<not> truthy subkeyFingerprint \<longrightarrow>
        allowedFingerprints keyring keyFingerprint subkeyFingerprint = Inr {}
        \<and> verifyBlob keyring gpg_verify signedData signature keyFingerprint subkeyFingerprint \<noteq>
            Inr b)"
proof (intro conjI impI)
  show "verifyBlob keyring gpg_verify signedData signature keyFingerprint subkeyFingerprint = Inr b \<longleftrightarrow>
      b \<and> (\<exists>allowed sigs.
             allowedFingerprints keyring keyFingerprint subkeyFingerprint = Inr allowed
             \<and> gpg_verify signedData signature = Inr sigs \<and> set sigs \<inter> allowed \<noteq> {})"
    by (auto simp: verifyBlob_def signatures_loop_iff split: sum.splits)
next
  assume "allowedFingerprints keyring keyFingerprint subkeyFingerprint = Inr allowed
        \<and> gpg_verify signedData signature = Inr sigs \<and> set sigs \<inter> allowed = {}"
  then show "verifyBlob keyring gpg_verify signedData signature keyFingerprint subkeyFingerprint =
          Inl (PyException (''Wrong public keys used: '' @ join '' '' sigs))"
    by (auto simp: verifyBlob_def signatures_loop_iff split: sum.splits)
next
  assume "gpg_verify signedData signature = Inl e"
  then show "\<exists>e'. verifyBlob keyring gpg_verify signedData signature keyFingerprint subkeyFingerprint = Inl e'"
    by (auto simp: verifyBlob_def split: sum.splits)
next
  assume a: "truthy keyFingerprint \<and> keyring = pre @ k # post
        \<and> k_fpr k = str_upper (the keyFingerprint)
        \<and> (\<forall>k' \<in> set pre. k_fpr k' \<noteq> str_upper (the keyFingerprint))"
  then have "findKeyByFingerprint keyring (str_upper (the keyFingerprint)) = Some k"
    using findKeyByFingerprint_first[of pre "str_upper (the keyFingerprint)" k post] by simp
  then show al: "allowedFingerprints keyring keyFingerprint subkeyFingerprint = Inr (set (k_subkeys k))"
    using a by (simp add: allowedFingerprints_def)
  assume "gpg_verify signedData signature = Inr sigs"
  then show "verifyBlob keyring gpg_verify signedData signature keyFingerprint subkeyFingerprint =
               (if set sigs \<inter> set (k_subkeys k) \<noteq> {} then Inr True
                else Inl (PyException (''Wrong public keys used: '' @ join '' '' sigs)))"
    using al by (simp add: verifyBlob_def signatures_loop_iff)
next
  assume a: "truthy keyFingerprint \<and> (\<forall>k' \<in> set keyring. k_fpr k' \<noteq> str_upper (the keyFingerprint))"
  then have "findKeyByFingerprint keyring (str_upper (the keyFingerprint)) = None"
    using findKeyByFingerprint_none by blast
  then show "verifyBlob keyring gpg_verify signedData signature keyFingerprint subkeyFingerprint =
          Inl AttributeError"
    using a by (simp add: verifyBlob_def allowedFingerprints_def)
next
  assume a: "\<not> truthy keyFingerprint \<and> truthy subkeyFingerprint"
  then show al: "allowedFingerprints keyring keyFingerprint subkeyFingerprint =
          Inr {str_upper (the subkeyFingerprint)}"
    by (simp add: allowedFingerprints_def)
  assume "gpg_verify signedData signature = Inr sigs"
  then show "verifyBlob keyring gpg_verify signedData signature keyFingerprint subkeyFingerprint =
               (if str_upper (the subkeyFingerprint) \<in> set sigs then Inr True
                else Inl (PyException (''Wrong public keys used: '' @ join '' '' sigs)))"
    using al by (simp add: verifyBlob_def signatures_loop_iff)
next
  assume a: "\<not> truthy keyFingerprint \<and> \<not> truthy subkeyFingerprint"
  then show al: "allowedFingerprints keyring keyFingerprint subkeyFingerprint = Inr {}"
    by (simp add: allowedFingerprints_def)
  then show "verifyBlob keyring gpg_verify signedData signature keyFingerprint subkeyFingerprint \<noteq>
            Inr b"
    by (auto simp: verifyBlob_def signatures_loop_iff split: sum.splits)
qed

theorem verifyBlob_intersects_witness:
  "allowedFingerprints (ex_other_key # ex_keyring) (Some signingKeyFingerprint) None =
     Inr {''CBA23971357C2E6590D9EFD3EC8FEF3A7BFB4EDA'', ''2D2CEF1034921684A4E0B5A8A1C5D9E6F7081234''}
   \<and> verifyBlob (ex_other_key # ex_keyring) (ex_gpg [''AAAA'', ''2D2CEF1034921684A4E0B5A8A1C5D9E6F7081234''])
        ''m'' ''s'' (Some signingKeyFingerprint) None = Inr True
   \<and> verifyBlob (ex_other_key # ex_keyring) (ex_gpg [''89ABCDEF0123456789ABCDEF0123456789ABCDEF'', ''BBBB''])
        ''m'' ''s'' (Some signingKeyFingerprint) None =
        Inl (PyException ''Wrong public keys used: 89ABCDEF0123456789ABCDEF0123456789ABCDEF BBBB'')
   \<and> (\<exists>e'. verifyBlob (ex_other_key # ex_keyring) (\<lambda>d s. Inl (GpgError ''BadSignatures'')) ''m'' ''s''
        (Some signingKeyFingerprint) None = Inl e')
   \<and> verifyBlob [ex_other_key] (ex_gpg [''89ABCDEF0123456789ABCDEF0123456789ABCDEF'']) ''m'' ''s''
        (Some signingKeyFingerprint) None = Inl AttributeError
   \<and> verifyBlob [] (ex_gpg [''89ABCDEF0123456789ABCDEF0123456789ABCDEF'']) ''m'' ''s''
        None (Some ''89abcdef0123456789abcdef0123456789abcdef'') = Inr True"
proof -
  let ?K = "ex_other_key # ex_keyring"
  let ?k = "\<lparr>k_fpr = ''CBA23971357C2E6590D9EFD3EC8FEF3A7BFB4EDA'',
       k_subkeys = [''CBA23971357C2E6590D9EFD3EC8FEF3A7BFB4EDA'',
                    ''2D2CEF1034921684A4E0B5A8A1C5D9E6F7081234'']\<rparr>"
  have up: "str_upper signingKeyFingerprint = ''CBA23971357C2E6590D9EFD3EC8FEF3A7BFB4EDA''"
    by (simp add: signingKeyFingerprint_def char_eval)
  have tr: "truthy (Some signingKeyFingerprint)"
    by (simp add: truthy_def signingKeyFingerprint_def)
  have kr: "?K = [ex_other_key] @ ?k # []" by (simp add: ex_keyring_def)
  have pre: "\<forall>k' \<in> set [ex_other_key]. k_fpr k' \<noteq> str_upper (the (Some signingKeyFingerprint))"
    using up by (simp add: ex_other_key_def)
  have hyp: "truthy (Some signingKeyFingerprint) \<and> ?K = [ex_other_key] @ ?k # []
        \<and> k_fpr ?k = str_upper (the (Some signingKeyFingerprint))
        \<and> (\<forall>k' \<in> set [ex_other_key]. k_fpr k' \<noteq> str_upper (the (Some signingKeyFingerprint)))"
    using tr kr pre up by simp
  have g: "ex_gpg sigs ''m'' ''s'' = Inr sigs" for sigs by (simp add: ex_gpg_def)
  have "allowedFingerprints ?K (Some signingKeyFingerprint) None = Inr (set (k_subkeys ?k))"
    using verifyBlob_intersects [of ?K "ex_gpg []" "''m''" "''s''" "Some signingKeyFingerprint" None
        True "{}" "[]" "GpgError []" "[ex_other_key]" ?k "[]"] hyp
    by blast
  then have a: "allowedFingerprints ?K (Some signingKeyFingerprint) None =
     Inr {''CBA23971357C2E6590D9EFD3EC8FEF3A7BFB4EDA'', ''2D2CEF1034921684A4E0B5A8A1C5D9E6F7081234''}"
    by simp
  have "verifyBlob ?K (ex_gpg [''AAAA'', ''2D2CEF1034921684A4E0B5A8A1C5D9E6F7081234''])
        ''m'' ''s'' (Some signingKeyFingerprint) None =
          (if set [''AAAA'', ''2D2CEF1034921684A4E0B5A8A1C5D9E6F7081234''] \<inter> set (k_subkeys ?k) \<noteq> {}
           then Inr True
           else Inl (PyException (''Wrong public keys used: '' @
                  join '' '' [''AAAA'', ''2D2CEF1034921684A4E0B5A8A1C5D9E6F7081234''])))"
    using verifyBlob_intersects [of ?K "ex_gpg [''AAAA'', ''2D2CEF1034921684A4E0B5A8A1C5D9E6F7081234'']"
        "''m''" "''s''" "Some signingKeyFingerprint" None
        True "{}" "[''AAAA'', ''2D2CEF1034921684A4E0B5A8A1C5D9E6F7081234'']" "GpgError []"
        "[ex_other_key]" ?k "[]"] hyp g
    by blast
  then have 1: "verifyBlob ?K (ex_gpg [''AAAA'', ''2D2CEF1034921684A4E0B5A8A1C5D9E6F7081234''])
        ''m'' ''s'' (Some signingKeyFingerprint) None = Inr True"
    by simp
  have "verifyBlob ?K (ex_gpg [''89ABCDEF0123456789ABCDEF0123456789ABCDEF'', ''BBBB''])
        ''m'' ''s'' (Some signingKeyFingerprint) None =
          (if set [''89ABCDEF0123456789ABCDEF0123456789ABCDEF'', ''BBBB''] \<inter> set (k_subkeys ?k) \<noteq> {}
           then Inr True
           else Inl (PyException (''Wrong public keys used: '' @
                  join '' '' [''89ABCDEF0123456789ABCDEF0123456789ABCDEF'', ''BBBB''])))"
    using verifyBlob_intersects [of ?K "ex_gpg [''89ABCDEF0123456789ABCDEF0123456789ABCDEF'', ''BBBB'']"
        "''m''" "''s''" "Some signingKeyFingerprint" None
        True "{}" "[''89ABCDEF0123456789ABCDEF0123456789ABCDEF'', ''BBBB'']" "GpgError []"
        "[ex_other_key]" ?k "[]"] hyp g
    by blast
  then have 2: "verifyBlob ?K (ex_gpg [''89ABCDEF0123456789ABCDEF0123456789ABCDEF'', ''BBBB''])
        ''m'' ''s'' (Some signingKeyFingerprint) None =
        Inl (PyException ''Wrong public keys used: 89ABCDEF0123456789ABCDEF0123456789ABCDEF BBBB'')"
    by simp
  have 3: "\<exists>e'. verifyBlob ?K (\<lambda>d s. Inl (GpgError ''BadSignatures'')) ''m'' ''s''
        (Some signingKeyFingerprint) None = Inl e'"
    using verifyBlob_intersects [of ?K "\<lambda>d s. Inl (GpgError ''BadSignatures'')"
        "''m''" "''s''" "Some signingKeyFingerprint" None True "{}" "[]" "GpgError ''BadSignatures''"]
    by simp
  have 4: "verifyBlob [ex_other_key] (ex_gpg [''89ABCDEF0123456789ABCDEF0123456789ABCDEF'']) ''m'' ''s''
        (Some signingKeyFingerprint) None = Inl AttributeError"
    using verifyBlob_intersects [of "[ex_other_key]" "ex_gpg [''89ABCDEF0123456789ABCDEF0123456789ABCDEF'']"
        "''m''" "''s''" "Some signingKeyFingerprint" None True "{}" "[]" "GpgError []"] tr pre
    by simp
  have 5: "verifyBlob [] (ex_gpg [''89ABCDEF0123456789ABCDEF0123456789ABCDEF'']) ''m'' ''s''
        None (Some ''89abcdef0123456789abcdef0123456789abcdef'') = Inr True"
    using verifyBlob_intersects [of "[]" "ex_gpg [''89ABCDEF0123456789ABCDEF0123456789ABCDEF'']"
        "''m''" "''s''" None "Some ''89abcdef0123456789abcdef0123456789abcdef''" True "{}"
        "[''89ABCDEF0123456789ABCDEF0123456789ABCDEF'']" "GpgError []"]
    by (simp add: truthy_def ex_gpg_def char_eval)
  show ?thesis using a 1 2 3 4 5 by blast
qed

section \<open>Case of fingerprints\<close>

lemma of_char_lt_256: "(of_char x :: nat) < 256"
proof -
  have "(of_char x :: nat) mod 256 = of_char x" by simp
  then show ?thesis by (metis mod_less_divisor zero_less_numeral)
qed

lemma of_char_upper_char:
  "(of_char (upper_char x) :: nat) =
     (if 97 \<le> (of_char x :: nat) \<and> (of_char x :: nat) \<le> 122 then of_char x - 32 else of_char x)"
proof -
  have "(of_char x :: nat) - 32 < 256" using of_char_lt_256[of x] by arith
  then have "((of_char x :: nat) - 32) mod 256 = of_char x - 32" by (rule mod_less)
  then show ?thesis by (simp add: upper_char_def Let_def)
qed








lemma upper_char_idem: "upper_char (upper_char c) = upper_char c"
proof -
  have "(of_char (upper_char (upper_char c)) :: nat) = of_char (upper_char c)"
    unfolding of_char_upper_char[of "upper_char c"] unfolding of_char_upper_char[of c] by auto
  then show ?thesis by simp
qed

lemma str_upper_idem: "str_upper (str_upper s) = str_upper s"
  by (simp add: str_upper_def upper_char_idem)





text \<open>
  The comparison is up to case because the library's strings are in upper case: \<open>verifyBlob\<close>
  itself compares a reported fingerprint as it is.
\<close>

lemma verifyBlob_compares_reports_as_given:
  "verifyBlob ex_keyring (ex_gpg [''2d2cef1034921684a4e0b5a8a1c5d9e6f7081234'']) ''m'' ''s''
        (Some signingKeyFingerprint) None =
        Inl (PyException ''Wrong public keys used: 2d2cef1034921684a4e0b5a8a1c5d9e6f7081234'')"
  by (simp add: verifyBlob_def allowedFingerprints_def truthy_def signingKeyFingerprint_def
        ex_keyring_def ex_gpg_def char_eval)

section \<open>The manifest reader\<close>

lemmas csv_defs = reader_next_def parse_process_char_def start_field_def parse_add_char_def
  parse_save_field_def is_nl_def delimiter_def field_limit_def


lemma in_field_chars:
  "\<forall>c \<in> set x. c \<noteq> delimiter \<and> \<not> is_nl c \<Longrightarrow> length acc + length x \<le> field_limit \<Longrightarrow>
   process_chars \<lparr>rd_state = IN_FIELD, rd_fields = fs, rd_field = acc\<rparr> (x @ rest) =
   process_chars \<lparr>rd_state = IN_FIELD, rd_fields = fs, rd_field = acc @ x\<rparr> rest"
proof (induction x arbitrary: acc)
  case Nil
  then show ?case by simp
next
  case (Cons c x)
  have "length acc < field_limit" using Cons.prems(2) by simp
  then have step: "parse_process_char \<lparr>rd_state = IN_FIELD, rd_fields = fs, rd_field = acc\<rparr> (Some c) =
      Inr \<lparr>rd_state = IN_FIELD, rd_fields = fs, rd_field = acc @ [c]\<rparr>"
    using Cons.prems(1) by (simp add: parse_process_char_def parse_add_char_def)
  have "process_chars \<lparr>rd_state = IN_FIELD, rd_fields = fs, rd_field = acc @ [c]\<rparr> (x @ rest) =
        process_chars \<lparr>rd_state = IN_FIELD, rd_fields = fs, rd_field = (acc @ [c]) @ x\<rparr> rest"
    using Cons.prems by (intro Cons.IH) auto
  then show ?case using step by simp
qed

lemma field_limit_pos: "0 < field_limit" by (simp add: field_limit_def)

lemma field_then_delimiter:
  assumes "wf_field x" and "st = START_RECORD \<or> st = START_FIELD"
  shows "process_chars \<lparr>rd_state = st, rd_fields = fs, rd_field = []\<rparr> (x @ delimiter # rest) =
         process_chars \<lparr>rd_state = START_FIELD, rd_fields = fs @ [x], rd_field = []\<rparr> rest"
proof (cases x)
  case Nil
  have "\<not> is_nl delimiter" by (simp add: is_nl_def delimiter_def)
  then show ?thesis using assms(2) Nil
    by (auto simp: parse_process_char_def start_field_def parse_save_field_def)
next
  case (Cons c cs)
  have c: "c \<noteq> delimiter" "\<not> is_nl c" and cs: "\<forall>c \<in> set cs. c \<noteq> delimiter \<and> \<not> is_nl c"
    and len: "length [c] + length cs \<le> field_limit"
    using assms(1) Cons by (auto simp: wf_field_def)
  have first: "parse_process_char \<lparr>rd_state = st, rd_fields = fs, rd_field = []\<rparr> (Some c) =
      Inr \<lparr>rd_state = IN_FIELD, rd_fields = fs, rd_field = [c]\<rparr>"
    using assms(2) c field_limit_pos
    by (auto simp: parse_process_char_def start_field_def parse_add_char_def)
  have "\<not> is_nl delimiter" by (simp add: is_nl_def delimiter_def)
  then have last: "process_chars \<lparr>rd_state = IN_FIELD, rd_fields = fs, rd_field = [c] @ cs\<rparr> (delimiter # rest) =
        process_chars \<lparr>rd_state = START_FIELD, rd_fields = fs @ [x], rd_field = []\<rparr> rest"
    using Cons by (simp add: parse_process_char_def parse_save_field_def)
  show ?thesis
    using first in_field_chars[OF cs len, of fs "delimiter # rest"] last Cons by simp
qed

lemma field_then_end:
  assumes "wf_field x"
  shows "process_chars \<lparr>rd_state = START_FIELD, rd_fields = fs, rd_field = []\<rparr> x = Inr r \<Longrightarrow>
         \<exists>r'. parse_process_char r None = Inr r' \<and> rd_fields r' = fs @ [x]"
proof (cases x)
  case Nil
  assume "process_chars \<lparr>rd_state = START_FIELD, rd_fields = fs, rd_field = []\<rparr> x = Inr r"
  then show ?thesis using Nil
    by (auto simp: parse_process_char_def start_field_def parse_save_field_def)
next
  case (Cons c cs)
  assume run: "process_chars \<lparr>rd_state = START_FIELD, rd_fields = fs, rd_field = []\<rparr> x = Inr r"
  have c: "c \<noteq> delimiter" "\<not> is_nl c" and cs: "\<forall>c \<in> set cs. c \<noteq> delimiter \<and> \<not> is_nl c"
    and len: "length [c] + length cs \<le> field_limit"
    using assms(1) Cons by (auto simp: wf_field_def)
  have first: "parse_process_char \<lparr>rd_state = START_FIELD, rd_fields = fs, rd_field = []\<rparr> (Some c) =
      Inr \<lparr>rd_state = IN_FIELD, rd_fields = fs, rd_field = [c]\<rparr>"
    using c field_limit_pos
    by (auto simp: parse_process_char_def start_field_def parse_add_char_def)
  have "r = \<lparr>rd_state = IN_FIELD, rd_fields = fs, rd_field = [c] @ cs\<rparr>"
    using run first in_field_chars[OF cs len, of fs "[]"] Cons by simp
  then show ?thesis using Cons
    by (simp add: parse_process_char_def parse_save_field_def)
qed


lemma newline_then_end:
  assumes "is_nl c"
  shows "\<exists>r'. parse_process_char r (Some c) = Inr r' \<and>
          map_sum id rd_fields (parse_process_char r' None) =
          map_sum id rd_fields (parse_process_char r None)"
  using assms
  by (cases "rd_state r")
     (auto simp: parse_process_char_def start_field_def parse_save_field_def)

lemma process_chars_append:
  "process_chars r (xs @ ys) =
     (case process_chars r xs of Inl e \<Rightarrow> Inl e | Inr r' \<Rightarrow> process_chars r' ys)"
  by (induction xs arbitrary: r) (auto split: sum.splits)

lemma reader_next_alt:
  "reader_next line =
     (case process_chars \<lparr>rd_state = START_RECORD, rd_fields = [], rd_field = []\<rparr> line of
        Inl e \<Rightarrow> Inl e
      | Inr self \<Rightarrow> map_sum id rd_fields (parse_process_char self None))"
  by (auto simp: reader_next_def split: sum.splits)

lemma reader_next_newline: "is_nl c \<Longrightarrow> reader_next (line @ [c]) = reader_next line"
proof -
  assume nl: "is_nl c"
  show ?thesis
  proof (cases "process_chars \<lparr>rd_state = START_RECORD, rd_fields = [], rd_field = []\<rparr> line")
    case (Inl e)
    then show ?thesis by (simp add: reader_next_alt process_chars_append)
  next
    case (Inr r)
    obtain r' where "parse_process_char r (Some c) = Inr r'"
      and "map_sum id rd_fields (parse_process_char r' None) =
           map_sum id rd_fields (parse_process_char r None)"
      using newline_then_end[OF nl, of r] by blast
    then show ?thesis using Inr by (simp add: reader_next_alt process_chars_append)
  qed
qed

lemma reader_next_three:
  assumes "wf_field a" "wf_field b" "wf_field c"
  shows "reader_next (a @ delimiter # b @ delimiter # c) = Inr [a, b, c]"
proof -
  let ?r0 = "\<lparr>rd_state = START_RECORD, rd_fields = [], rd_field = []\<rparr>"
  have 1: "process_chars ?r0 (a @ delimiter # b @ delimiter # c) =
           process_chars \<lparr>rd_state = START_FIELD, rd_fields = [] @ [a], rd_field = []\<rparr>
             (b @ delimiter # c)"
    by (rule field_then_delimiter[OF assms(1)]) simp
  have 2: "process_chars \<lparr>rd_state = START_FIELD, rd_fields = [a], rd_field = []\<rparr> (b @ delimiter # c) =
           process_chars \<lparr>rd_state = START_FIELD, rd_fields = [a] @ [b], rd_field = []\<rparr> c"
    by (rule field_then_delimiter[OF assms(2)]) simp
  show ?thesis
  proof (cases "process_chars \<lparr>rd_state = START_FIELD, rd_fields = [a, b], rd_field = []\<rparr> c")
    case (Inr r)
    then obtain r' where "parse_process_char r None = Inr r'" "rd_fields r' = [a, b] @ [c]"
      using field_then_end[OF assms(3)] by blast
    then show ?thesis using 1 2 Inr by (simp add: reader_next_def)
  next
    case (Inl e)
    have "\<exists>r. process_chars \<lparr>rd_state = START_FIELD, rd_fields = [a, b], rd_field = []\<rparr> (c @ delimiter # []) = Inr r"
      using field_then_delimiter[OF assms(3), of START_FIELD "[a, b]" "[]"] by simp
    then show ?thesis using Inl by (simp add: process_chars_append)
  qed
qed

lemma reader_next_manifest_line:
  assumes "wf_field label" "wf_field (fst fh)" "wf_field (snd fh)"
  shows "reader_next (manifest_line label fh) = Inr [snd fh, label, fst fh]"
proof -
  have "reader_next ((snd fh @ delimiter # label @ delimiter # fst fh) @ [CHR 0x0A]) =
        reader_next (snd fh @ delimiter # label @ delimiter # fst fh)"
    by (rule reader_next_newline) (simp add: is_nl_def)
  then show ?thesis
    using reader_next_three[OF assms(3) assms(1) assms(2)]
    by (simp add: manifest_line_def)
qed

lemma readlines_from_line:
  "CHR 0x0A \<notin> set body \<Longrightarrow>
   readlines_from cur (body @ CHR 0x0A # rest) = (cur @ body @ [CHR 0x0A]) # readlines_from [] rest"
  by (induction body arbitrary: cur) auto

lemma wf_field_no_lf: "wf_field x \<Longrightarrow> CHR 0x0A \<notin> set x"
  by (auto simp: wf_field_def is_nl_def)

lemma delimiter_not_lf: "delimiter \<noteq> CHR 0x0A"
  by (simp add: delimiter_def)

lemma readlines_manifest:
  assumes "wf_field label" "\<forall>fh \<in> set m. wf_field (fst fh) \<and> wf_field (snd fh)"
  shows "readlines (manifest_text label m) = map (manifest_line label) m"
  using assms(2)
proof (induction m)
  case Nil
  then show ?case by (simp add: readlines_def manifest_text_def)
next
  case (Cons fh m)
  let ?body = "snd fh @ delimiter # label @ delimiter # fst fh"
  have nolf: "CHR 0x0A \<notin> set ?body"
    using Cons.prems assms(1) wf_field_no_lf delimiter_not_lf by auto
  have "manifest_text label (fh # m) = ?body @ CHR 0x0A # manifest_text label m"
    by (simp add: manifest_text_def manifest_line_def)
  then have "readlines (manifest_text label (fh # m)) =
        ([] @ ?body @ [CHR 0x0A]) # readlines_from [] (manifest_text label m)"
    using readlines_from_line[OF nolf, of "[]" "manifest_text label m"]
    by (simp add: readlines_def)
  then show ?case using Cons by (simp add: readlines_def manifest_line_def)
qed

lemma rows_loop_manifest:
  assumes "wf_field label" "\<forall>fh \<in> set m. wf_field (fst fh) \<and> wf_field (snd fh)"
  shows "rows_loop res (map (manifest_line label) m) = Inr (res ++ map_of (rev m))"
  using assms(2)
proof (induction m arbitrary: res)
  case Nil
  then show ?case by simp
next
  case (Cons fh m)
  have line: "reader_next (manifest_line label fh) = Inr [snd fh, label, fst fh]"
    using reader_next_manifest_line[OF assms(1)] Cons.prems by simp
  have "rows_loop res (map (manifest_line label) (fh # m)) =
        rows_loop (res(fst fh \<mapsto> snd fh)) (map (manifest_line label) m)"
    using line by (simp add: py_index_def)
  also have "\<dots> = Inr (res(fst fh \<mapsto> snd fh) ++ map_of (rev m))"
    using Cons by simp
  also have "res(fst fh \<mapsto> snd fh) ++ map_of (rev m) = res ++ map_of (rev (fh # m))"
    by (cases fh) (simp add: map_add_upd_left fun_eq_iff map_add_def split: option.splits)
  finally show ?case .
qed

lemma map_of_rev_distinct: "distinct (map fst m) \<Longrightarrow> map_of (rev m) = map_of m"
proof (induction m)
  case Nil
  then show ?case by simp
next
  case (Cons x m)
  then have "map_of (rev m) (fst x) = None"
    by (simp add: map_of_eq_None_iff)
  then show ?case using Cons
    by (cases x) (auto simp: fun_eq_iff map_add_def split: option.splits)
qed

text \<open>
  C8. For a manifest text written in the format of the specification from a list of
  (filename, hash) pairs whose fields the format can carry, \<open>parseHashesFile\<close> returns
  the mapping in which the last line of a filename wins; the digests are returned as given.
  When no filename repeats, that is the mapping the text was written from.
\<close>

theorem parseHashesFile_roundtrip:
  assumes "wf_field label" and "\<forall>(filename, hash) \<in> set m. wf_field filename \<and> wf_field hash"
  shows "parseHashesFile (manifest_text label m) = Inr (map_of (rev m))
         \<and> (distinct (map fst m) \<longrightarrow> parseHashesFile (manifest_text label m) = Inr (map_of m))"
proof -
  have wf: "\<forall>fh \<in> set m. wf_field (fst fh) \<and> wf_field (snd fh)"
    using assms(2) by auto
  have p: "parseHashesFile (manifest_text label m) = Inr (map_of (rev m))"
    using readlines_manifest[OF assms(1) wf] rows_loop_manifest[OF assms(1) wf, of Map.empty]
    by (simp add: parseHashesFile_def)
  moreover have "distinct (map fst m) \<Longrightarrow> map_of (rev m) = map_of m"
    by (rule map_of_rev_distinct)
  ultimately show ?thesis by simp
qed

theorem parseHashesFile_roundtrip_witness:
  "wf_field ''SHA-256''
   \<and> list_all (\<lambda>(filename, hash). wf_field filename \<and> wf_field hash) ex_manifest
   \<and> distinct (map fst ex_manifest)
   \<and> manifest_text ''SHA-256'' ex_manifest =
       ''AbC123 SHA-256 foo.tar.gz\<newline>00ff SHA-256 bar.txt\<newline>''
   \<and> parseHashesFile ''AbC123 SHA-256 foo.tar.gz\<newline>00ff SHA-256 bar.txt\<newline>'' =
       Inr (map_of ex_manifest)
   \<and> map_of ex_manifest ''foo.tar.gz'' = Some ''AbC123''
   \<and> parseHashesFile (manifest_text ''SHA-256'' (ex_manifest @ [(''foo.tar.gz'', ''ffee'')])) =
       Inr ((map_of ex_manifest)(''foo.tar.gz'' \<mapsto> ''ffee''))"
proof -
  have w: "wf_field ''SHA-256''"
    by (simp add: wf_field_def delimiter_def is_nl_def field_limit_def)
  have a: "\<forall>(filename, hash) \<in> set ex_manifest. wf_field filename \<and> wf_field hash"
    by (simp add: ex_manifest_def wf_field_def delimiter_def is_nl_def field_limit_def)
  have a': "\<forall>(filename, hash) \<in> set (ex_manifest @ [(''foo.tar.gz'', ''ffee'')]).
              wf_field filename \<and> wf_field hash"
    by (simp add: ex_manifest_def wf_field_def delimiter_def is_nl_def field_limit_def)
  have d: "distinct (map fst ex_manifest)" by (simp add: ex_manifest_def)
  have t: "manifest_text ''SHA-256'' ex_manifest =
       ''AbC123 SHA-256 foo.tar.gz\<newline>00ff SHA-256 bar.txt\<newline>''"
    by (simp add: manifest_text_def manifest_line_def ex_manifest_def delimiter_def)
  have m: "map_of (rev (ex_manifest @ [(''foo.tar.gz'', ''ffee'')])) =
           (map_of ex_manifest)(''foo.tar.gz'' \<mapsto> ''ffee'')"
    by (simp add: map_of_rev_distinct[OF d])
  have p1: "parseHashesFile ''AbC123 SHA-256 foo.tar.gz\<newline>00ff SHA-256 bar.txt\<newline>'' =
       Inr (map_of ex_manifest)"
    using parseHashesFile_roundtrip [OF w a] d unfolding t by blast
  have p2: "parseHashesFile (manifest_text ''SHA-256'' (ex_manifest @ [(''foo.tar.gz'', ''ffee'')])) =
       Inr ((map_of ex_manifest)(''foo.tar.gz'' \<mapsto> ''ffee''))"
    using parseHashesFile_roundtrip [OF w a'] unfolding m by blast
  have l: "map_of ex_manifest ''foo.tar.gz'' = Some ''AbC123''"
    by (simp add: ex_manifest_def)
  have a2: "list_all (\<lambda>(filename, hash). wf_field filename \<and> wf_field hash) ex_manifest"
    using a by (simp add: list_all_iff)
  show ?thesis
    using w a2 d t p1 p2 l by blast
qed

section \<open>The hash check of doBuild\<close>

lemma verifyBlob_True:
  "verifyBlob keyring gpg_verify signedData signature kf skf = Inr b \<Longrightarrow> b"
  by (auto simp: verifyBlob_def split: sum.splits if_splits)

text \<open>
  C2. Once the signature of the manifest is verified, the manifest parsed and the entry
  of the archive's filename found, the downloaded file's digest is compared with that
  entry after both are brought to lower case: on a difference \<open>doBuild\<close> ends with the
  exception \<open>Bad hash for the downloaded archive!\<close>, and on equality the path goes on.
  A path goes on only if the signature was verified, the manifest parsed, its entry found
  and the digests equal up to case.
\<close>

theorem doBuild_hash_check:
  "(verifyBlob keyring gpg_verify hashesRaw hashesSigRaw (Some signingKeyFingerprint) None = Inr True
      \<and> parseHashesFile hashesRaw = Inr hashes \<and> hashes archiveFileName = Some h
      \<and> downloaded = Inr actualFileHash \<longrightarrow>
      doBuild_verified keyring gpg_verify hashesRaw hashesSigRaw archiveFileName downloaded archPath =
        (if str_lower actualFileHash = str_lower h then Inr archPath
         else Inl (PyException ''Bad hash for the downloaded archive!'')))
   \<and> (doBuild_verified keyring gpg_verify hashesRaw hashesSigRaw archiveFileName downloaded archPath =
          Inr p \<longrightarrow>
        p = archPath
        \<and> verifyBlob keyring gpg_verify hashesRaw hashesSigRaw (Some signingKeyFingerprint) None =
            Inr True
        \<and> (\<exists>hashes h actualFileHash.
              parseHashesFile hashesRaw = Inr hashes \<and> hashes archiveFileName = Some h
              \<and> downloaded = Inr actualFileHash \<and> str_lower actualFileHash = str_lower h))"
proof (intro conjI impI)
  assume "verifyBlob keyring gpg_verify hashesRaw hashesSigRaw (Some signingKeyFingerprint) None = Inr True
      \<and> parseHashesFile hashesRaw = Inr hashes \<and> hashes archiveFileName = Some h
      \<and> downloaded = Inr actualFileHash"
  then show "doBuild_verified keyring gpg_verify hashesRaw hashesSigRaw archiveFileName downloaded archPath =
        (if str_lower actualFileHash = str_lower h then Inr archPath
         else Inl (PyException ''Bad hash for the downloaded archive!''))"
    by (simp add: doBuild_verified_def)
next
  assume r: "doBuild_verified keyring gpg_verify hashesRaw hashesSigRaw archiveFileName downloaded archPath =
          Inr p"
  then obtain b where v: "verifyBlob keyring gpg_verify hashesRaw hashesSigRaw (Some signingKeyFingerprint) None = Inr b"
    by (auto simp: doBuild_verified_def split: sum.splits)
  then have b by (rule verifyBlob_True)
  with v show "verifyBlob keyring gpg_verify hashesRaw hashesSigRaw (Some signingKeyFingerprint) None = Inr True"
    by simp
  from r show "p = archPath"
    by (auto simp: doBuild_verified_def Let_def split: sum.splits option.splits if_splits)
  from r show "\<exists>hashes h actualFileHash.
              parseHashesFile hashesRaw = Inr hashes \<and> hashes archiveFileName = Some h
              \<and> downloaded = Inr actualFileHash \<and> str_lower actualFileHash = str_lower h"
    by (auto simp: doBuild_verified_def Let_def split: sum.splits option.splits if_splits)
qed

lemma ex_parse:
  "parseHashesFile ''abc123 SHA-256 foo.tar.gz\<newline>'' = Inr [''foo.tar.gz'' \<mapsto> ''abc123'']"
  by (simp add: parseHashesFile_def readlines_def csv_defs py_index_def)

lemma ex_parse_changed:
  "parseHashesFile ''abd123 SHA-256 foo.tar.gz\<newline>'' = Inr [''foo.tar.gz'' \<mapsto> ''abd123'']"
  by (simp add: parseHashesFile_def readlines_def csv_defs py_index_def)

lemma ex_verified:
  "verifyBlob ex_keyring (ex_gpg [''2D2CEF1034921684A4E0B5A8A1C5D9E6F7081234'']) t s
        (Some signingKeyFingerprint) None = Inr True"
  by (simp add: verifyBlob_def allowedFingerprints_def truthy_def signingKeyFingerprint_def
        ex_keyring_def ex_gpg_def char_eval)

theorem doBuild_hash_check_witness:
  "doBuild_verified ex_keyring (ex_gpg [''2D2CEF1034921684A4E0B5A8A1C5D9E6F7081234''])
     ''abc123 SHA-256 foo.tar.gz\<newline>'' ''sig'' ''foo.tar.gz'' (Inr ''ABC123'')
     ''downloads/x86_64.tar.gz'' = Inr ''downloads/x86_64.tar.gz''
   \<and> doBuild_verified ex_keyring (ex_gpg [''2D2CEF1034921684A4E0B5A8A1C5D9E6F7081234''])
     ''abd123 SHA-256 foo.tar.gz\<newline>'' ''sig'' ''foo.tar.gz'' (Inr ''ABC123'')
     ''downloads/x86_64.tar.gz'' = Inl (PyException ''Bad hash for the downloaded archive!'')"
proof -
  have l: "str_lower ''ABC123'' = str_lower ''abc123''" "str_lower ''ABC123'' \<noteq> str_lower ''abd123''"
    by (simp_all add: char_eval)
  have h: "[''foo.tar.gz'' \<mapsto> ''abc123''] ''foo.tar.gz'' = Some ''abc123''"
          "[''foo.tar.gz'' \<mapsto> ''abd123''] ''foo.tar.gz'' = Some ''abd123''"
    by simp_all
  have 1: "doBuild_verified ex_keyring (ex_gpg [''2D2CEF1034921684A4E0B5A8A1C5D9E6F7081234''])
     ''abc123 SHA-256 foo.tar.gz\<newline>'' ''sig'' ''foo.tar.gz'' (Inr ''ABC123'')
     ''downloads/x86_64.tar.gz'' =
       (if str_lower ''ABC123'' = str_lower ''abc123'' then Inr ''downloads/x86_64.tar.gz''
        else Inl (PyException ''Bad hash for the downloaded archive!''))"
    using doBuild_hash_check [of ex_keyring "ex_gpg [''2D2CEF1034921684A4E0B5A8A1C5D9E6F7081234'']"
        "''abc123 SHA-256 foo.tar.gz\<newline>''" "''sig''" "[''foo.tar.gz'' \<mapsto> ''abc123'']"
        "''foo.tar.gz''" "''abc123''" "Inr ''ABC123''" "''ABC123''" "''downloads/x86_64.tar.gz''"]
      ex_parse ex_verified h(1)
    by blast
  have 2: "doBuild_verified ex_keyring (ex_gpg [''2D2CEF1034921684A4E0B5A8A1C5D9E6F7081234''])
     ''abd123 SHA-256 foo.tar.gz\<newline>'' ''sig'' ''foo.tar.gz'' (Inr ''ABC123'')
     ''downloads/x86_64.tar.gz'' =
       (if str_lower ''ABC123'' = str_lower ''abd123'' then Inr ''downloads/x86_64.tar.gz''
        else Inl (PyException ''Bad hash for the downloaded archive!''))"
    using doBuild_hash_check [of ex_keyring "ex_gpg [''2D2CEF1034921684A4E0B5A8A1C5D9E6F7081234'']"
        "''abd123 SHA-256 foo.tar.gz\<newline>''" "''sig''" "[''foo.tar.gz'' \<mapsto> ''abd123'']"
        "''foo.tar.gz''" "''abd123''" "Inr ''ABC123''" "''ABC123''" "''downloads/x86_64.tar.gz''"]
      ex_parse_changed ex_verified h(2)
    by blast
  show ?thesis using 1 2 l by simp
qed

section \<open>Lines of the manifest with the wrong number of fields\<close>

lemma rows_loop_ok_iff:
  "(\<exists>res'. rows_loop res ls = Inr res') \<longleftrightarrow>
   (\<forall>l \<in> set ls. \<exists>row. reader_next l = Inr row \<and> 3 \<le> length row)"
proof (induction ls arbitrary: res)
  case Nil
  then show ?case by simp
next
  case (Cons l ls)
  show ?case
  proof (cases "reader_next l")
    case (Inl e)
    then show ?thesis by simp
  next
    case (Inr row)
    show ?thesis
    proof (cases "3 \<le> length row")
      case True
      then show ?thesis using Inr
        by (auto simp: py_index_def Cons.IH)
    next
      case False
      then show ?thesis using Inr by (auto simp: py_index_def)
    qed
  qed
qed

lemma rows_loop_first_short:
  assumes "\<forall>l' \<in> set pre. \<exists>row. reader_next l' = Inr row \<and> 3 \<le> length row"
    and "reader_next l = Inr row" and "length row < 3"
  shows "rows_loop res (pre @ l # post) = Inl IndexError"
  using assms(1)
proof (induction pre arbitrary: res)
  case Nil
  then show ?case using assms(2,3) by (auto simp: py_index_def)
next
  case (Cons p pre)
  then obtain fs where fs: "reader_next p = Inr fs" "3 \<le> length fs" by auto
  have "\<forall>l' \<in> set pre. \<exists>row. reader_next l' = Inr row \<and> 3 \<le> length row"
    using Cons.prems by simp
  then show ?case using fs by (simp add: py_index_def Cons.IH)
qed

lemma rows_loop_cong:
  "map reader_next ls = map reader_next ls' \<Longrightarrow> rows_loop res ls = rows_loop res ls'"
proof (induction ls arbitrary: ls' res)
  case Nil
  then show ?case by simp
next
  case (Cons l ls)
  then obtain l' ls'' where ls': "ls' = l' # ls''" by (cases ls') auto
  with Cons.prems have h: "reader_next l = reader_next l'" and t: "map reader_next ls = map reader_next ls''"
    by auto
  have eq: "\<And>res. rows_loop res ls = rows_loop res ls''" by (rule Cons.IH[OF t])
  show ?case unfolding ls' rows_loop.simps h eq by (rule refl)
qed

lemma readlines_from_final_lf:
  "cur @ inp \<noteq> [] \<Longrightarrow> last (cur @ inp) \<noteq> CHR 0x0A \<Longrightarrow>
   \<exists>pre l. readlines_from cur inp = pre @ [l] \<and> readlines_from cur (inp @ [CHR 0x0A]) = pre @ [l @ [CHR 0x0A]]"
proof (induction inp arbitrary: cur)
  case Nil
  then show ?case by auto
next
  case (Cons c cs)
  show ?case
  proof (cases "c = CHR 0x0A")
    case True
    have ne: "cs \<noteq> []" using Cons.prems(2) True by auto
    then have "[] @ cs \<noteq> []" "last ([] @ cs) \<noteq> CHR 0x0A" using Cons.prems(2) by auto
    from Cons.IH[OF this] obtain pre l where
      "readlines_from [] cs = pre @ [l]" "readlines_from [] (cs @ [CHR 0x0A]) = pre @ [l @ [CHR 0x0A]]"
      by blast
    then have "readlines_from cur (c # cs) = ((cur @ [c]) # pre) @ [l]"
      "readlines_from cur ((c # cs) @ [CHR 0x0A]) = ((cur @ [c]) # pre) @ [l @ [CHR 0x0A]]"
      using True by auto
    then show ?thesis by blast
  next
    case False
    have "(cur @ [c]) @ cs \<noteq> []" "last ((cur @ [c]) @ cs) \<noteq> CHR 0x0A" using Cons.prems by auto
    from Cons.IH[OF this] show ?thesis using False by auto
  qed
qed

lemma parseHashesFile_final_lf:
  assumes "inp \<noteq> []" "last inp \<noteq> CHR 0x0A"
  shows "parseHashesFile (inp @ [CHR 0x0A]) = parseHashesFile inp"
proof -
  obtain pre l where a: "readlines inp = pre @ [l]"
    and b: "readlines (inp @ [CHR 0x0A]) = pre @ [l @ [CHR 0x0A]]"
    using readlines_from_final_lf[of "[]" inp] assms by (auto simp: readlines_def)
  have "reader_next (l @ [CHR 0x0A]) = reader_next l"
    by (rule reader_next_newline) (simp add: is_nl_def)
  then have "map reader_next (pre @ [l @ [CHR 0x0A]]) = map reader_next (pre @ [l])" by simp
  then show ?thesis unfolding parseHashesFile_def a b by (rule rows_loop_cong)
qed

lemma rows_loop_result:
  "\<forall>l \<in> set ls. \<exists>row. reader_next l = Inr row \<and> 3 \<le> length row \<Longrightarrow>
   rows_loop res ls =
     Inr (res ++ map_of (rev (map (\<lambda>l. (projr (reader_next l) ! 2, projr (reader_next l) ! 0)) ls)))"
proof (induction ls arbitrary: res)
  case Nil
  then show ?case by simp
next
  case (Cons l ls)
  then obtain row where row: "reader_next l = Inr row" "3 \<le> length row" by auto
  let ?kv = "\<lambda>l. (projr (reader_next l) ! 2, projr (reader_next l) ! 0)"
  have "rows_loop res (l # ls) = rows_loop (res(row ! 2 \<mapsto> row ! 0)) ls"
    using row by (auto simp: py_index_def)
  also have "\<dots> = Inr (res(row ! 2 \<mapsto> row ! 0) ++ map_of (rev (map ?kv ls)))"
    using Cons by simp
  also have "res(row ! 2 \<mapsto> row ! 0) ++ map_of (rev (map ?kv ls)) =
             res ++ map_of (rev (map ?kv (l # ls)))"
    using row by (simp add: fun_eq_iff map_add_def split: option.splits)
  finally show ?case .
qed

lemma process_chars_error: "process_chars r xs = Inl e \<Longrightarrow> e = CsvError"
proof (induction xs arbitrary: r)
  case Nil
  then show ?case by simp
next
  case (Cons c xs)
  show ?case
  proof (cases "parse_process_char r (Some c)")
    case (Inl e')
    then have "e' = CsvError"
      by (cases "rd_state r")
         (auto simp: parse_process_char_def start_field_def parse_add_char_def
               split: if_splits sum.splits)
    then show ?thesis using Cons.prems Inl by simp
  next
    case (Inr r')
    then show ?thesis using Cons by simp
  qed
qed

lemma after_cr:
  "parse_process_char r (Some (CHR 0x0D)) = Inr r' \<Longrightarrow> rd_state r' = EAT_CRNL"
  by (cases "rd_state r")
     (auto simp: parse_process_char_def start_field_def parse_save_field_def is_nl_def)

lemma cr_never_fails: "\<exists>r'. parse_process_char r (Some (CHR 0x0D)) = Inr r'"
  by (cases "rd_state r")
     (auto simp: parse_process_char_def start_field_def parse_save_field_def is_nl_def)

lemma reader_next_lone_cr:
  assumes "\<not> is_nl c"
  shows "reader_next (a @ CHR 0x0D # c # rest) = Inl CsvError"
proof (cases "process_chars \<lparr>rd_state = START_RECORD, rd_fields = [], rd_field = []\<rparr> a")
  case (Inl e)
  then have "e = CsvError" by (rule process_chars_error)
  then show ?thesis using Inl by (simp add: reader_next_def process_chars_append)
next
  case (Inr r)
  obtain r' where r': "parse_process_char r (Some (CHR 0x0D)) = Inr r'"
    using cr_never_fails by blast
  then have "rd_state r' = EAT_CRNL" by (rule after_cr)
  then have "parse_process_char r' (Some c) = Inl CsvError"
    using assms by (simp add: parse_process_char_def)
  then show ?thesis using Inr r' by (simp add: reader_next_def process_chars_append)
qed

lemma readlines_from_lines:
  "\<forall>l \<in> set ls. CHR 0x0A \<notin> set l \<Longrightarrow> CHR 0x0A \<notin> set e \<Longrightarrow>
   readlines_from [] (concat (map (\<lambda>l. l @ e @ [CHR 0x0A]) ls)) = map (\<lambda>l. l @ e @ [CHR 0x0A]) ls"
proof (induction ls)
  case Nil
  then show ?case by simp
next
  case (Cons l ls)
  have nolf: "CHR 0x0A \<notin> set (l @ e)" using Cons.prems by simp
  have "readlines_from [] ((l @ e) @ CHR 0x0A # concat (map (\<lambda>l. l @ e @ [CHR 0x0A]) ls)) =
        ([] @ (l @ e) @ [CHR 0x0A]) # readlines_from [] (concat (map (\<lambda>l. l @ e @ [CHR 0x0A]) ls))"
    by (rule readlines_from_line[OF nolf])
  then show ?case using Cons by simp
qed

lemma parseHashesFile_crlf:
  assumes "\<forall>l \<in> set ls. CHR 0x0A \<notin> set l"
  shows "parseHashesFile (concat (map (\<lambda>l. l @ [CHR 0x0D, CHR 0x0A]) ls)) =
         parseHashesFile (concat (map (\<lambda>l. l @ [CHR 0x0A]) ls))"
proof -
  have a: "readlines (concat (map (\<lambda>l. l @ [CHR 0x0D, CHR 0x0A]) ls)) =
           map (\<lambda>l. l @ [CHR 0x0D, CHR 0x0A]) ls"
    using readlines_from_lines[OF assms, of "[CHR 0x0D]"] by (simp add: readlines_def)
  have b: "readlines (concat (map (\<lambda>l. l @ [CHR 0x0A]) ls)) = map (\<lambda>l. l @ [CHR 0x0A]) ls"
    using readlines_from_lines[OF assms, of "[]"] by (simp add: readlines_def)
  have nl: "is_nl (CHR 0x0D)" "is_nl (CHR 0x0A)" by (simp_all add: is_nl_def)
  have "reader_next (l @ [CHR 0x0D, CHR 0x0A]) = reader_next (l @ [CHR 0x0A])" for l
    using reader_next_newline[OF nl(2), of "l @ [CHR 0x0D]"] reader_next_newline[OF nl(1), of l]
      reader_next_newline[OF nl(2), of l]
    by simp
  then have "map reader_next (map (\<lambda>l. l @ [CHR 0x0D, CHR 0x0A]) ls) =
             map reader_next (map (\<lambda>l. l @ [CHR 0x0A]) ls)" by simp
  then show ?thesis unfolding parseHashesFile_def a b by (rule rows_loop_cong)
qed

text \<open>
  C7 (amended). \<open>parseHashesFile\<close> returns a mapping exactly when every line of the text
  gives a record of at least three fields; the first line whose record has fewer than three
  fields, an empty line among them, raises \<open>IndexError\<close>, so no such line is skipped. When
  it returns, the mapping takes the third field of every record to its first field, later
  lines first: the fields after the third are ignored. A missing line feed at the end of the
  text changes nothing, nor does a carriage return or line feed at the end of a line, so a
  text whose lines end in carriage return and line feed reads as the text whose lines end in
  a line feed; a carriage return followed by another character than a line break raises
  the reader's error.
\<close>

theorem parseHashesFile_short_lines:
  "((\<exists>res. parseHashesFile inp = Inr res) \<longleftrightarrow>
      (\<forall>l \<in> set (readlines inp). \<exists>row. reader_next l = Inr row \<and> 3 \<le> length row))
   \<and> (readlines inp = pre @ l # post
        \<and> (\<forall>l' \<in> set pre. \<exists>row. reader_next l' = Inr row \<and> 3 \<le> length row)
        \<and> reader_next l = Inr row \<and> length row < 3 \<longrightarrow>
        parseHashesFile inp = Inl IndexError)
   \<and> ((\<forall>l \<in> set (readlines inp). \<exists>row. reader_next l = Inr row \<and> 3 \<le> length row) \<longrightarrow>
        parseHashesFile inp =
          Inr (map_of (rev (map (\<lambda>l. (projr (reader_next l) ! 2, projr (reader_next l) ! 0))
                              (readlines inp)))))
   \<and> (inp \<noteq> [] \<and> last inp \<noteq> CHR 0x0A \<longrightarrow>
        parseHashesFile (inp @ [CHR 0x0A]) = parseHashesFile inp)
   \<and> (is_nl c \<longrightarrow> reader_next (line @ [c]) = reader_next line)
   \<and> ((\<forall>l \<in> set ls. CHR 0x0A \<notin> set l) \<longrightarrow>
        parseHashesFile (concat (map (\<lambda>l. l @ [CHR 0x0D, CHR 0x0A]) ls)) =
        parseHashesFile (concat (map (\<lambda>l. l @ [CHR 0x0A]) ls)))
   \<and> (\<not> is_nl d \<longrightarrow> reader_next (line @ CHR 0x0D # d # rest) = Inl CsvError)"
proof (intro conjI impI)
  show "(\<exists>res. parseHashesFile inp = Inr res) \<longleftrightarrow>
      (\<forall>l \<in> set (readlines inp). \<exists>row. reader_next l = Inr row \<and> 3 \<le> length row)"
    unfolding parseHashesFile_def by (rule rows_loop_ok_iff)
next
  assume "readlines inp = pre @ l # post
        \<and> (\<forall>l' \<in> set pre. \<exists>row. reader_next l' = Inr row \<and> 3 \<le> length row)
        \<and> reader_next l = Inr row \<and> length row < 3"
  then show "parseHashesFile inp = Inl IndexError"
    unfolding parseHashesFile_def using rows_loop_first_short[of pre l row Map.empty post] by simp
next
  assume "\<forall>l \<in> set (readlines inp). \<exists>row. reader_next l = Inr row \<and> 3 \<le> length row"
  then show "parseHashesFile inp =
          Inr (map_of (rev (map (\<lambda>l. (projr (reader_next l) ! 2, projr (reader_next l) ! 0))
                              (readlines inp))))"
    unfolding parseHashesFile_def using rows_loop_result[of "readlines inp" Map.empty] by simp
next
  assume "inp \<noteq> [] \<and> last inp \<noteq> CHR 0x0A"
  then show "parseHashesFile (inp @ [CHR 0x0A]) = parseHashesFile inp"
    using parseHashesFile_final_lf by blast
next
  assume "is_nl c"
  then show "reader_next (line @ [c]) = reader_next line" by (rule reader_next_newline)
next
  assume "\<forall>l \<in> set ls. CHR 0x0A \<notin> set l"
  then show "parseHashesFile (concat (map (\<lambda>l. l @ [CHR 0x0D, CHR 0x0A]) ls)) =
        parseHashesFile (concat (map (\<lambda>l. l @ [CHR 0x0A]) ls))"
    by (rule parseHashesFile_crlf)
next
  assume "\<not> is_nl d"
  then show "reader_next (line @ CHR 0x0D # d # rest) = Inl CsvError"
    by (rule reader_next_lone_cr)
qed


lemma ex_lines: "readlines ''a b c\<newline>d e'' = [''a b c\<newline>''] @ ''d e'' # []"
  by (simp add: readlines_def)

lemma ex_short: "reader_next ''d e'' = Inr [''d'', ''e'']"
  by (simp add: csv_defs)

lemma ex_long: "reader_next ''a b c\<newline>'' = Inr [''a'', ''b'', ''c'']"
  by (simp add: csv_defs)

lemma ex_extra: "reader_next ''h1 SHA-256 f1 extra\<newline>'' = Inr [''h1'', ''SHA-256'', ''f1'', ''extra'']"
  by (simp add: csv_defs)

lemma ex_plain: "reader_next ''h2 SHA-256 f2\<newline>'' = Inr [''h2'', ''SHA-256'', ''f2'']"
  by (simp add: csv_defs)

lemma ex_extra_lines:
  "readlines ''h1 SHA-256 f1 extra\<newline>h2 SHA-256 f2\<newline>'' =
     [''h1 SHA-256 f1 extra\<newline>'', ''h2 SHA-256 f2\<newline>'']"
  by (simp add: readlines_def)

theorem parseHashesFile_short_lines_witness:
  "parseHashesFile ''a b c\<newline>d e'' = Inl IndexError
   \<and> parseHashesFile ''a b c\<newline>d e\<newline>'' = Inl IndexError
   \<and> reader_next (''a b c'' @ [CHR 0x0D]) = reader_next ''a b c''
   \<and> \<not> (\<exists>res. parseHashesFile ''a b c\<newline>d e'' = Inr res)
   \<and> parseHashesFile ''h1 SHA-256 f1 extra\<newline>h2 SHA-256 f2\<newline>'' =
       Inr [''f1'' \<mapsto> ''h1'', ''f2'' \<mapsto> ''h2'']
   \<and> parseHashesFile (''h1 x f1'' @ [CHR 0x0D, CHR 0x0A] @ ''h2 x f2'' @ [CHR 0x0D, CHR 0x0A]) =
       parseHashesFile ''h1 x f1\<newline>h2 x f2\<newline>''
   \<and> reader_next (''a b c'' @ CHR 0x0D # ''d e f'' @ [CHR 0x0D]) = Inl CsvError"
proof -
  have pre: "\<forall>l' \<in> set [''a b c\<newline>'']. \<exists>row. reader_next l' = Inr row \<and> 3 \<le> length row"
    using ex_long by simp
  have nl: "is_nl (CHR 0x0D)" by (simp add: is_nl_def)
  have ne: "''a b c\<newline>d e'' \<noteq> [] \<and> last ''a b c\<newline>d e'' \<noteq> CHR 0x0A" by simp
  note t = parseHashesFile_short_lines [where inp = "''a b c\<newline>d e''" and pre = "[''a b c\<newline>'']"
        and l = "''d e''" and post = "[]" and row = "[''d'', ''e'']" and c = "CHR 0x0D"
        and line = "''a b c''" and ls = "[''h1 x f1'', ''h2 x f2'']" and d = "CHR ''d''"
        and rest = "'' e f'' @ [CHR 0x0D]"]
  have 1: "parseHashesFile ''a b c\<newline>d e'' = Inl IndexError"
    using t ex_lines pre ex_short by simp
  have 2: "parseHashesFile (''a b c\<newline>d e'' @ [CHR 0x0A]) = parseHashesFile ''a b c\<newline>d e''"
    using t ne by blast
  have 3: "reader_next (''a b c'' @ [CHR 0x0D]) = reader_next ''a b c''"
    using t nl by blast
  have ok: "\<forall>l \<in> set (readlines ''h1 SHA-256 f1 extra\<newline>h2 SHA-256 f2\<newline>'').
              \<exists>row. reader_next l = Inr row \<and> 3 \<le> length row"
    unfolding ex_extra_lines using ex_extra ex_plain by simp
  have "parseHashesFile ''h1 SHA-256 f1 extra\<newline>h2 SHA-256 f2\<newline>'' =
          Inr (map_of (rev (map (\<lambda>l. (projr (reader_next l) ! 2, projr (reader_next l) ! 0))
                 (readlines ''h1 SHA-256 f1 extra\<newline>h2 SHA-256 f2\<newline>''))))"
    using parseHashesFile_short_lines
            [where inp = "''h1 SHA-256 f1 extra\<newline>h2 SHA-256 f2\<newline>''"] ok
    by blast
  then have 4: "parseHashesFile ''h1 SHA-256 f1 extra\<newline>h2 SHA-256 f2\<newline>'' =
       Inr [''f1'' \<mapsto> ''h1'', ''f2'' \<mapsto> ''h2'']"
    unfolding ex_extra_lines by (simp add: ex_extra ex_plain)
  have nolf: "\<forall>l \<in> set [''h1 x f1'', ''h2 x f2'']. CHR 0x0A \<notin> set l" by simp
  have "parseHashesFile (concat (map (\<lambda>l. l @ [CHR 0x0D, CHR 0x0A]) [''h1 x f1'', ''h2 x f2''])) =
        parseHashesFile (concat (map (\<lambda>l. l @ [CHR 0x0A]) [''h1 x f1'', ''h2 x f2'']))"
    using t nolf by blast
  then have 5: "parseHashesFile (''h1 x f1'' @ [CHR 0x0D, CHR 0x0A] @ ''h2 x f2'' @ [CHR 0x0D, CHR 0x0A]) =
       parseHashesFile ''h1 x f1\<newline>h2 x f2\<newline>''"
    by simp
  have nd: "\<not> is_nl (CHR ''d'')" by (simp add: is_nl_def)
  have "reader_next (''a b c'' @ CHR 0x0D # CHR ''d'' # '' e f'' @ [CHR 0x0D]) = Inl CsvError"
    using t nd by blast
  then have 6: "reader_next (''a b c'' @ CHR 0x0D # ''d e f'' @ [CHR 0x0D]) = Inl CsvError"
    by simp
  show ?thesis using 1 2 3 4 5 6 by simp
qed

text \<open>
  C7 as stated fails: a line of four fields is accepted, its fourth field ignored; and a
  second line feed at the end of the text is an empty line, which raises \<open>IndexError\<close>.
\<close>

theorem parseHashesFile_field_count_counterexample:
  "reader_next ''abc SHA-256 foo.tar.gz extra\<newline>'' = Inr [''abc'', ''SHA-256'', ''foo.tar.gz'', ''extra'']
   \<and> parseHashesFile ''abc SHA-256 foo.tar.gz extra\<newline>'' = Inr [''foo.tar.gz'' \<mapsto> ''abc'']
   \<and> parseHashesFile ''abc SHA-256 foo.tar.gz\<newline>\<newline>'' = Inl IndexError"
  by (simp add: parseHashesFile_def readlines_def csv_defs py_index_def)

section \<open>isSubdir\<close>












section \<open>What the file system operations leave alone\<close>














section \<open>unpack\<close>

lemmas path_eval = parse_path_def joinpath_def path_parent_def path_str_def absolute_def step_def
  resolve_def relative_to_def inside_def

lemmas fs_eval = locate_def is_file_def is_dir_def is_symlink_def unlink_def os_mkdir_def
  tar_extract_def mkdir_parents.simps unpack_member_def isSubdir_def Let_def

lemma e1: "parse_path ''cmake/bin/cmake'' = PPath Relative [''cmake'', ''bin'', ''cmake'']"
  by (simp add: path_eval)

lemma e2: "snd (members_loop (PPath Root [''t'', ''r'']) [ex_member ''cmake/bin/cmake'']
         (ex_fs, \<lparr>pb_total = 7, pb_n = 0, pb_postfix = []\<rparr>)) = None"
  by (simp add: ex_fs_def ex_member_def path_eval fs_eval)




lemmas ex_eval = ex_fs_def ex_member_def ex_archive_def path_eval fs_eval









text \<open>
  Directories are another matter: \<open>fp.parent.mkdir(parents=True)\<close> follows the path as it
  is written. A member named \<open>../newdir/../r/y\<close> resolves to \<open>/t/r/y\<close>, inside the
  target directory, and is extracted there; on the way the directory \<open>/t/newdir\<close> is made
  beside the target directory.
\<close>

lemma unpack_makes_directory_outside:
  "snd (unpack ex_fs (ex_archive [2, 0, 0, 0] [''../newdir/../r/y'']) (PPath Relative [''r''])) = None
   \<and> [''t'', ''newdir''] \<notin> fs_dirs ex_fs
   \<and> [''t'', ''newdir''] \<in> fs_dirs (fst (unpack ex_fs (ex_archive [2, 0, 0, 0] [''../newdir/../r/y''])
         (PPath Relative [''r''])))
   \<and> fs_files (fst (unpack ex_fs (ex_archive [2, 0, 0, 0] [''../newdir/../r/y''])
         (PPath Relative [''r''])))
        [''t'', ''r'', ''y''] = Some [1, 2]"
  by (simp add: unpack_def read_unpackedSize_def ex_eval)

end
